theory Spec2Isabelle
  imports Main "HOL-Library.AList" "HOL-Library.Multiset"
begin

section \<open>The roster index of \<^verbatim>\<open>src/roster_list.c\<close>\<close>

text \<open>
  The module keeps six process-wide variables: four completion indexes and two hash
  tables. The model threads them through every operation as one record. Strings are
  NUL-free byte sequences (\<open>string\<close>); a \<^verbatim>\<open>char *\<close> that may be NULL is a
  \<open>string option\<close>; a \<^verbatim>\<open>GSList\<close> of strings is a \<open>string list\<close> whose empty list is
  the NULL pointer.
\<close>

subsection \<open>Collaborators: GLib and libc\<close>

text \<open>
  \<^verbatim>\<open>strcmp\<close> compares two strings byte by byte as unsigned chars. Only the sign of the
  result is specified by C, so the model returns \<open>-1\<close>, \<open>0\<close> or \<open>1\<close>.
\<close>

fun strcmp :: "string \<Rightarrow> string \<Rightarrow> int" where
  "strcmp [] [] = 0"
| "strcmp [] (y # ys) = -1"
| "strcmp (x # xs) [] = 1"
| "strcmp (x # xs) (y # ys) =
     (if x = y then strcmp xs ys
      else if (of_char x :: nat) < of_char y then -1 else 1)"

text \<open>\<^verbatim>\<open>g_strcmp0\<close> is \<^verbatim>\<open>strcmp\<close> made safe for NULL: NULL sorts before every string.\<close>

fun g_strcmp0 :: "string option \<Rightarrow> string option \<Rightarrow> int" where
  "g_strcmp0 None None = 0"
| "g_strcmp0 None (Some b) = -1"
| "g_strcmp0 (Some a) None = 1"
| "g_strcmp0 (Some a) (Some b) = strcmp a b"

text \<open>
  A \<^verbatim>\<open>GDateTime\<close> is an instant together with the time zone it is displayed in;
  \<^verbatim>\<open>g_date_time_equal\<close> holds when both denote the same instant.
\<close>

record GDateTime =
  instant :: int
  utc_offset :: int

definition g_date_time_equal :: "GDateTime \<Rightarrow> GDateTime \<Rightarrow> bool" where
  "g_date_time_equal dt1 dt2 = (instant dt1 = instant dt2)"

text \<open>
  A \<^verbatim>\<open>GHashTable\<close> keyed by strings under \<^verbatim>\<open>g_str_hash\<close> with an exact equality
  (\<^verbatim>\<open>g_str_equal\<close>, or \<^verbatim>\<open>_key_equals\<close>, which is \<^verbatim>\<open>g_strcmp0(a, b) == 0\<close>) is an
  association list: the list order stands for the (unspecified) iteration order.
  Inserting under a key already present replaces the value in place.
\<close>

definition key_equals :: "string \<Rightarrow> string \<Rightarrow> bool" where
  "key_equals key1 key2 = (g_strcmp0 (Some key1) (Some key2) = 0)"

definition g_hash_table_lookup :: "(string \<times> 'v) list \<Rightarrow> string \<Rightarrow> 'v option" where
  "g_hash_table_lookup h k = map_of h k"

definition g_hash_table_insert :: "(string \<times> 'v) list \<Rightarrow> string \<Rightarrow> 'v \<Rightarrow> (string \<times> 'v) list" where
  "g_hash_table_insert h k v = AList.update k v h"

definition g_hash_table_remove :: "(string \<times> 'v) list \<Rightarrow> string \<Rightarrow> (string \<times> 'v) list" where
  "g_hash_table_remove h k = AList.delete k h"

text \<open>
  \<^verbatim>\<open>g_slist_insert_sorted(list, data, func)\<close> walks the list while \<open>func data x > 0\<close>
  and links the new cell in front of the first element where that fails.
\<close>

fun g_slist_insert_sorted :: "'a list \<Rightarrow> 'a \<Rightarrow> ('a \<Rightarrow> 'a \<Rightarrow> int) \<Rightarrow> 'a list" where
  "g_slist_insert_sorted [] d func = [d]"
| "g_slist_insert_sorted (x # xs) d func =
     (if func d x > 0 then x # g_slist_insert_sorted xs d func else d # x # xs)"

subsection \<open>Collaborators of this repository that are not among the sources\<close>

text \<open>
  Modelled from the spec: \<^verbatim>\<open>tools/autocomplete.c\<close> is missing. The spec gives its
  contract: a set of strings where \<open>add(s)\<close> inserts \<open>s\<close> (dedup by exact match),
  \<open>remove(s)\<close> deletes the exact match, \<open>reset()\<close> clears the search cursor and not the
  contents, and the index can be enumerated as a list; \<open>clear\<close> wipes it. The search
  cursor is read by \<open>complete\<close> only and is left out.
\<close>

type_synonym Autocomplete = "string list"

definition autocomplete_new :: Autocomplete where
  "autocomplete_new = []"

definition autocomplete_clear :: "Autocomplete \<Rightarrow> Autocomplete" where
  "autocomplete_clear ac = []"

definition autocomplete_reset :: "Autocomplete \<Rightarrow> Autocomplete" where
  "autocomplete_reset ac = ac"

definition autocomplete_add :: "Autocomplete \<Rightarrow> string \<Rightarrow> Autocomplete" where
  "autocomplete_add ac item = (if item \<in> set ac then ac else ac @ [item])"

definition autocomplete_remove :: "Autocomplete \<Rightarrow> string \<Rightarrow> Autocomplete" where
  "autocomplete_remove ac item = removeAll item ac"

definition autocomplete_create_list :: "Autocomplete \<Rightarrow> string list" where
  "autocomplete_create_list ac = ac"

text \<open>
  Modelled from the spec: \<^verbatim>\<open>resource.c\<close> is missing. A resource is a named presence
  instance of a contact; the roster reads its name only.
\<close>

record Resource =
  resource_name :: string
  resource_presence :: string

text \<open>
  Modelled from the spec: \<^verbatim>\<open>jid.c\<close> is missing. The full jid built from a bare jid
  and a resource is the string \<open>barejid/resource\<close>.
\<close>

definition jid_create_from_bare_and_resource :: "string \<Rightarrow> string \<Rightarrow> string" where
  "jid_create_from_bare_and_resource barejid resource = barejid @ ''/'' @ resource"

text \<open>
  Modelled from the spec: \<^verbatim>\<open>contact.c\<close> is missing. A Contact is a value object
  exposing its bare jid, display name, groups, subscription, pending-out flag,
  last activity and the list of its available resources; it can take a resource's
  presence, and drop a resource by name, reporting whether it had it. The record
  fields are the getters of the source.
\<close>

record PContact =
  p_contact_barejid :: string
  p_contact_name :: "string option"
  p_contact_groups :: "string list"
  p_contact_subscription :: "string option"
  p_contact_offline_message :: "string option"
  p_contact_pending_out :: bool
  p_contact_last_activity :: "GDateTime option"
  available_resources :: "(string \<times> Resource) list"

definition p_contact_new ::
  "string \<Rightarrow> string option \<Rightarrow> string list \<Rightarrow> string option \<Rightarrow> string option \<Rightarrow> bool \<Rightarrow> PContact" where
  "p_contact_new barejid name groups subscription offline_message pending_out =
     \<lparr> p_contact_barejid = barejid, p_contact_name = name, p_contact_groups = groups,
       p_contact_subscription = subscription, p_contact_offline_message = offline_message,
       p_contact_pending_out = pending_out, p_contact_last_activity = None,
       available_resources = [] \<rparr>"

definition p_contact_set_name :: "PContact \<Rightarrow> string option \<Rightarrow> PContact" where
  "p_contact_set_name contact name = contact\<lparr>p_contact_name := name\<rparr>"

definition p_contact_set_groups :: "PContact \<Rightarrow> string list \<Rightarrow> PContact" where
  "p_contact_set_groups contact groups = contact\<lparr>p_contact_groups := groups\<rparr>"

definition p_contact_set_subscription :: "PContact \<Rightarrow> string option \<Rightarrow> PContact" where
  "p_contact_set_subscription contact subscription =
     contact\<lparr>p_contact_subscription := subscription\<rparr>"

definition p_contact_set_pending_out :: "PContact \<Rightarrow> bool \<Rightarrow> PContact" where
  "p_contact_set_pending_out contact pending_out =
     contact\<lparr>p_contact_pending_out := pending_out\<rparr>"

definition p_contact_set_last_activity :: "PContact \<Rightarrow> GDateTime option \<Rightarrow> PContact" where
  "p_contact_set_last_activity contact last_activity =
     contact\<lparr>p_contact_last_activity := last_activity\<rparr>"

definition p_contact_set_presence :: "PContact \<Rightarrow> Resource \<Rightarrow> PContact" where
  "p_contact_set_presence contact resource =
     contact\<lparr>available_resources :=
       AList.update (resource_name resource) resource (available_resources contact)\<rparr>"

definition p_contact_remove_resource :: "PContact \<Rightarrow> string \<Rightarrow> bool \<times> PContact" where
  "p_contact_remove_resource contact resource =
     (resource \<in> fst ` set (available_resources contact),
      contact\<lparr>available_resources := AList.delete resource (available_resources contact)\<rparr>)"

definition p_contact_get_available_resources :: "PContact \<Rightarrow> string list" where
  "p_contact_get_available_resources contact = map fst (available_resources contact)"

text \<open>
  What depends on the locale, and how a Contact derives its presence string from its
  resources, is not fixed by the spec; the operations take these three functions as an
  environment.
\<close>

record env =
  g_utf8_strdown :: "string \<Rightarrow> string"
  g_utf8_collate_key :: "string \<Rightarrow> string"
  p_contact_presence :: "PContact \<Rightarrow> string"

text \<open>
  Modelled from the spec: \<^verbatim>\<open>contact.c\<close> is missing. Each Contact exposes a collation
  key derived from its display name, absent when it has no name, and one derived from
  its barejid; the collation itself is the environment's.
\<close>

definition p_contact_name_collate_key :: "env \<Rightarrow> PContact \<Rightarrow> string option" where
  "p_contact_name_collate_key E contact = map_option (g_utf8_collate_key E) (p_contact_name contact)"

definition p_contact_barejid_collate_key :: "env \<Rightarrow> PContact \<Rightarrow> string option" where
  "p_contact_barejid_collate_key E contact = Some (g_utf8_collate_key E (p_contact_barejid contact))"

text \<open>
  An environment to run examples in: the C locale on ASCII text (lower-casing maps
  \<open>A\<close>..\<open>Z\<close> to \<open>a\<close>..\<open>z\<close>, the collation key is the string itself), and a contact is
  offline when it has no available resource, else has the presence of its first one.
\<close>

definition ascii_tolower :: "char \<Rightarrow> char" where
  "ascii_tolower c =
     (case map_of (zip ''ABCDEFGHIJKLMNOPQRSTUVWXYZ'' ''abcdefghijklmnopqrstuvwxyz'') c of
        Some d \<Rightarrow> d | None \<Rightarrow> c)"

definition c_locale :: env where
  "c_locale =
     \<lparr> g_utf8_strdown = map ascii_tolower,
       g_utf8_collate_key = (\<lambda>s. s),
       p_contact_presence = (\<lambda>c. case available_resources c of
                                    [] \<Rightarrow> ''offline''
                                  | (n, r) # rest \<Rightarrow> resource_presence r) \<rparr>"

subsection \<open>The roster state\<close>

record roster =
  name_ac :: Autocomplete
  barejid_ac :: Autocomplete
  fulljid_ac :: Autocomplete
  groups_ac :: Autocomplete
  contacts :: "(string \<times> PContact) list"
  name_to_barejid :: "(string \<times> string) list"

definition roster_init :: roster where
  "roster_init =
     \<lparr> name_ac = autocomplete_new, barejid_ac = autocomplete_new,
       fulljid_ac = autocomplete_new, groups_ac = autocomplete_new,
       contacts = [], name_to_barejid = [] \<rparr>"

definition roster_clear :: "roster \<Rightarrow> roster" where
  "roster_clear s =
     \<lparr> name_ac = autocomplete_clear (name_ac s), barejid_ac = autocomplete_clear (barejid_ac s),
       fulljid_ac = autocomplete_clear (fulljid_ac s), groups_ac = autocomplete_clear (groups_ac s),
       contacts = [], name_to_barejid = [] \<rparr>"

definition roster_reset_search_attempts :: "roster \<Rightarrow> roster" where
  "roster_reset_search_attempts s =
     s\<lparr> name_ac := autocomplete_reset (name_ac s), barejid_ac := autocomplete_reset (barejid_ac s),
        fulljid_ac := autocomplete_reset (fulljid_ac s),
        groups_ac := autocomplete_reset (groups_ac s) \<rparr>"

subsection \<open>Static helpers\<close>

definition datetimes_equal :: "GDateTime option \<Rightarrow> GDateTime option \<Rightarrow> bool" where
  "datetimes_equal dt1 dt2 =
     (if dt1 = None \<and> dt2 = None then True
      else if dt1 = None \<and> dt2 \<noteq> None then False
      else if dt1 \<noteq> None \<and> dt2 = None then False
      else g_date_time_equal (the dt1) (the dt2))"

definition add_name_and_barejid :: "string option \<Rightarrow> string \<Rightarrow> roster \<Rightarrow> roster" where
  "add_name_and_barejid name barejid s =
     (case name of
        Some n \<Rightarrow> s\<lparr> name_ac := autocomplete_add (name_ac s) n,
                     name_to_barejid := g_hash_table_insert (name_to_barejid s) n barejid \<rparr>
      | None \<Rightarrow> s\<lparr> name_ac := autocomplete_add (name_ac s) barejid,
                   name_to_barejid := g_hash_table_insert (name_to_barejid s) barejid barejid \<rparr>)"

definition replace_name :: "string option \<Rightarrow> string option \<Rightarrow> string \<Rightarrow> roster \<Rightarrow> roster" where
  "replace_name current_name new_name barejid s =
     (case current_name of
        Some cur \<Rightarrow>
          add_name_and_barejid new_name barejid
            (s\<lparr> name_ac := autocomplete_remove (name_ac s) cur,
                name_to_barejid := g_hash_table_remove (name_to_barejid s) cur \<rparr>)
      | None \<Rightarrow>
          (if new_name \<noteq> None then
             add_name_and_barejid new_name barejid
               (s\<lparr> name_ac := autocomplete_remove (name_ac s) barejid,
                   name_to_barejid := g_hash_table_remove (name_to_barejid s) barejid \<rparr>)
           else s))"

definition compare_contacts :: "env \<Rightarrow> PContact \<Rightarrow> PContact \<Rightarrow> int" where
  "compare_contacts E a b =
     (let utf8_str_a = (if p_contact_name_collate_key E a \<noteq> None
                        then p_contact_name_collate_key E a
                        else p_contact_barejid_collate_key E a);
          utf8_str_b = (if p_contact_name_collate_key E b \<noteq> None
                        then p_contact_name_collate_key E b
                        else p_contact_barejid_collate_key E b)
      in g_strcmp0 utf8_str_a utf8_str_b)"

subsection \<open>Operations\<close>

definition roster_get_contact :: "env \<Rightarrow> roster \<Rightarrow> string \<Rightarrow> PContact option" where
  "roster_get_contact E s barejid =
     (let barejidlower = g_utf8_strdown E barejid
      in g_hash_table_lookup (contacts s) barejidlower)"

text \<open>
  A \<^verbatim>\<open>PContact\<close> returned by \<open>roster_get_contact\<close> points into the table, at the entry
  under the lower-cased key; a setter called on it changes that entry.
\<close>

definition store_contact :: "env \<Rightarrow> string \<Rightarrow> PContact \<Rightarrow> roster \<Rightarrow> roster" where
  "store_contact E barejid contact s =
     s\<lparr> contacts := AList.update (g_utf8_strdown E barejid) contact (contacts s) \<rparr>"

definition roster_update_presence ::
  "env \<Rightarrow> string \<Rightarrow> Resource \<Rightarrow> GDateTime option \<Rightarrow> roster \<Rightarrow> bool \<times> roster" where
  "roster_update_presence E barejid resource last_activity s =
     (case roster_get_contact E s barejid of
        None \<Rightarrow> (False, s)
      | Some contact \<Rightarrow>
          (let c1 = (if \<not> datetimes_equal (p_contact_last_activity contact) last_activity
                     then p_contact_set_last_activity contact last_activity
                     else contact);
               c2 = p_contact_set_presence c1 resource;
               fulljid = jid_create_from_bare_and_resource barejid (resource_name resource);
               s1 = store_contact E barejid c2 s
           in (True, s1\<lparr> fulljid_ac := autocomplete_add (fulljid_ac s1) fulljid \<rparr>)))"

definition roster_contact_offline ::
  "env \<Rightarrow> string \<Rightarrow> string option \<Rightarrow> string option \<Rightarrow> roster \<Rightarrow> bool \<times> roster" where
  "roster_contact_offline E barejid resource status s =
     (case roster_get_contact E s barejid of
        None \<Rightarrow> (False, s)
      | Some contact \<Rightarrow>
          (case resource of
             None \<Rightarrow> (True, s)
           | Some r \<Rightarrow>
               (let (result, c1) = p_contact_remove_resource contact r;
                    s1 = store_contact E barejid c1 s
                in if result
                   then (result,
                         s1\<lparr> fulljid_ac := autocomplete_remove (fulljid_ac s1)
                               (jid_create_from_bare_and_resource barejid r) \<rparr>)
                   else (result, s1))))"

text \<open>
  \<open>roster_change_name\<close> takes the \<^verbatim>\<open>PContact\<close> pointer itself; in the model the pointer
  is the table key of the entry. A NULL pointer (no such entry) fails the assertion.
\<close>

definition roster_change_name :: "string \<Rightarrow> string option \<Rightarrow> roster \<Rightarrow> roster option" where
  "roster_change_name key new_name s =
     (case g_hash_table_lookup (contacts s) key of
        None \<Rightarrow> None
      | Some contact \<Rightarrow>
          (let current_name = p_contact_name contact;
               barejid = p_contact_barejid contact;
               s1 = s\<lparr> contacts := AList.update key (p_contact_set_name contact new_name) (contacts s) \<rparr>
           in Some (replace_name current_name new_name barejid s1)))"

text \<open>
  \<open>roster_remove\<close> hashes \<open>name\<close> (\<^verbatim>\<open>g_hash_table_remove(name_to_barejid, name)\<close>), so
  its \<open>name\<close> is a string, never NULL.
\<close>

definition roster_remove :: "env \<Rightarrow> string \<Rightarrow> string \<Rightarrow> roster \<Rightarrow> roster" where
  "roster_remove E name barejid s =
     (let s1 = s\<lparr> barejid_ac := autocomplete_remove (barejid_ac s) barejid,
                  name_ac := autocomplete_remove (name_ac s) name,
                  name_to_barejid := g_hash_table_remove (name_to_barejid s) name \<rparr>;
          s2 = (case roster_get_contact E s1 barejid of
                  None \<Rightarrow> s1
                | Some contact \<Rightarrow>
                    s1\<lparr> fulljid_ac :=
                          fold (\<lambda>resource ac. autocomplete_remove ac (barejid @ ''/'' @ resource))
                            (p_contact_get_available_resources contact) (fulljid_ac s1) \<rparr>)
      in s2\<lparr> contacts := g_hash_table_remove (contacts s2) barejid \<rparr>)"

definition roster_update ::
  "env \<Rightarrow> string \<Rightarrow> string option \<Rightarrow> string list \<Rightarrow> string option \<Rightarrow> bool \<Rightarrow> roster \<Rightarrow> roster option" where
  "roster_update E barejid name groups subscription pending_out s =
     (case roster_get_contact E s barejid of
        None \<Rightarrow> None
      | Some contact \<Rightarrow>
          (let c1 = p_contact_set_subscription contact subscription;
               c2 = p_contact_set_pending_out c1 pending_out;
               new_name = name;
               current_name = p_contact_name contact;
               c3 = p_contact_set_name c2 new_name;
               c4 = p_contact_set_groups c3 groups;
               s1 = store_contact E barejid c4 s;
               s2 = replace_name current_name new_name barejid s1
           in Some (s2\<lparr> groups_ac := fold (\<lambda>g ac. autocomplete_add ac g) groups (groups_ac s2) \<rparr>)))"

definition roster_add ::
  "env \<Rightarrow> string \<Rightarrow> string option \<Rightarrow> string list \<Rightarrow> string option \<Rightarrow> bool \<Rightarrow> roster \<Rightarrow> bool \<times> roster" where
  "roster_add E barejid name groups subscription pending_out s =
     (case roster_get_contact E s barejid of
        Some contact \<Rightarrow> (False, s)
      | None \<Rightarrow>
          (let contact = p_contact_new barejid name groups subscription None pending_out;
               s1 = s\<lparr> groups_ac := fold (\<lambda>g ac. autocomplete_add ac g) groups (groups_ac s) \<rparr>;
               s2 = s1\<lparr> contacts := g_hash_table_insert (contacts s1) barejid contact \<rparr>;
               s3 = s2\<lparr> barejid_ac := autocomplete_add (barejid_ac s2) barejid \<rparr>
           in (True, add_name_and_barejid name barejid s3)))"

subsection \<open>Queries\<close>

definition roster_barejid_from_name :: "roster \<Rightarrow> string option \<Rightarrow> string option" where
  "roster_barejid_from_name s name =
     (case name of Some n \<Rightarrow> g_hash_table_lookup (name_to_barejid s) n | None \<Rightarrow> None)"

text \<open>
  Each list query iterates over the table and inserts the selected contacts, one by
  one, into a fresh list with \<open>g_slist_insert_sorted\<close>. The queries return the list
  alone: they have no access to a new state.
\<close>

definition collect_sorted :: "env \<Rightarrow> (PContact \<Rightarrow> bool) \<Rightarrow> roster \<Rightarrow> PContact list" where
  "collect_sorted E keep s =
     fold (\<lambda>(key, val) result.
             if keep val then g_slist_insert_sorted result val (compare_contacts E) else result)
       (contacts s) []"

definition roster_get_contacts_by_presence :: "env \<Rightarrow> string option \<Rightarrow> roster \<Rightarrow> PContact list" where
  "roster_get_contacts_by_presence E presence s =
     collect_sorted E (\<lambda>contact. g_strcmp0 (Some (p_contact_presence E contact)) presence = 0) s"

definition roster_get_contacts :: "env \<Rightarrow> roster \<Rightarrow> PContact list" where
  "roster_get_contacts E s = collect_sorted E (\<lambda>contact. True) s"

definition roster_get_contacts_online :: "env \<Rightarrow> roster \<Rightarrow> PContact list" where
  "roster_get_contacts_online E s =
     collect_sorted E (\<lambda>contact. strcmp (p_contact_presence E contact) ''offline'' \<noteq> 0) s"

definition roster_get_nogroup :: "env \<Rightarrow> roster \<Rightarrow> PContact list" where
  "roster_get_nogroup E s = collect_sorted E (\<lambda>contact. p_contact_groups contact = []) s"

definition roster_get_group :: "env \<Rightarrow> string \<Rightarrow> roster \<Rightarrow> PContact list" where
  "roster_get_group E grp s =
     collect_sorted E (\<lambda>contact. list_ex (\<lambda>g. strcmp g grp = 0) (p_contact_groups contact)) s"

definition roster_get_groups :: "roster \<Rightarrow> string list" where
  "roster_get_groups s = autocomplete_create_list (groups_ac s)"

subsection \<open>Sequences of operations\<close>

text \<open>
  The mutating entry points of the module as a datatype, so that a property can be
  stated for every state the module reaches from \<open>roster_init\<close>. A failed assertion
  (\<open>roster_update\<close> or \<open>roster_change_name\<close> on a missing contact) aborts the run.
\<close>

datatype roster_op =
    Add string "string option" "string list" "string option" bool
  | Update string "string option" "string list" "string option" bool
  | ChangeName string "string option"
  | Remove string string
  | UpdatePresence string Resource "GDateTime option"
  | ContactOffline string "string option" "string option"
  | ResetSearchAttempts
  | Clear

fun apply_op :: "env \<Rightarrow> roster_op \<Rightarrow> roster \<Rightarrow> roster option" where
  "apply_op E (Add barejid name groups subscription pending_out) s =
     Some (snd (roster_add E barejid name groups subscription pending_out s))"
| "apply_op E (Update barejid name groups subscription pending_out) s =
     roster_update E barejid name groups subscription pending_out s"
| "apply_op E (ChangeName key new_name) s = roster_change_name key new_name s"
| "apply_op E (Remove name barejid) s = Some (roster_remove E name barejid s)"
| "apply_op E (UpdatePresence barejid resource last_activity) s =
     Some (snd (roster_update_presence E barejid resource last_activity s))"
| "apply_op E (ContactOffline barejid resource status) s =
     Some (snd (roster_contact_offline E barejid resource status s))"
| "apply_op E ResetSearchAttempts s = Some (roster_reset_search_attempts s)"
| "apply_op E Clear s = Some (roster_clear s)"

fun run :: "env \<Rightarrow> roster_op list \<Rightarrow> roster \<Rightarrow> roster option" where
  "run E [] s = Some s"
| "run E (x # xs) s = (case apply_op E x s of None \<Rightarrow> None | Some s' \<Rightarrow> run E xs s')"

subsection \<open>Example states\<close>

definition phone :: Resource where
  "phone = \<lparr> resource_name = ''phone'', resource_presence = ''away'' \<rparr>"

definition amy_state :: roster where
  "amy_state =
     snd (roster_add c_locale ''amy@x'' (Some ''Amy'') [''friends''] (Some ''both'') False roster_init)"


definition amy_removed_state :: roster where
  "amy_removed_state =
     \<lparr> name_ac = [], barejid_ac = [], fulljid_ac = [], groups_ac = [''friends'', ''work''],
       contacts = [], name_to_barejid = [] \<rparr>"

definition mixed_case_state :: roster where
  "mixed_case_state =
     snd (roster_add c_locale ''A@x'' (Some ''Bob'') [] None False roster_init)"

definition bob_state :: roster where
  "bob_state = snd (roster_add c_locale ''a@x'' (Some ''Bob'') [] None False roster_init)"

definition two_bobs_state :: roster where
  "two_bobs_state = snd (roster_add c_locale ''b@x'' (Some ''Bob'') [] None False bob_state)"

definition registration_ops :: "roster_op list" where
  "registration_ops =
     [Add ''a@b'' (Some ''Bob'') [] None False,
      Add ''c@d'' None [] None False,
      Update ''a@b'' None [] None False,
      Update ''a@b'' (Some ''Bob2'') [] None False,
      ChangeName ''c@d'' (Some ''Carl''),
      Add ''e@f'' (Some ''Eve'') [] None False,
      Remove ''Eve'' ''e@f'']"

definition registration_state :: roster where
  "registration_state =
     \<lparr> name_ac = [''Bob2'', ''Carl''], barejid_ac = [''a@b'', ''c@d''], fulljid_ac = [],
       groups_ac = [],
       contacts = [(''a@b'', p_contact_new ''a@b'' (Some ''Bob2'') [] None None False),
                   (''c@d'', p_contact_new ''c@d'' (Some ''Carl'') [] None None False)],
       name_to_barejid = [(''Bob2'', ''a@b''), (''Carl'', ''c@d'')] \<rparr>"

definition zed_amy_state :: roster where
  "zed_amy_state =
     snd (roster_add c_locale ''a@x'' (Some ''Amy'') [] None False
       (snd (roster_add c_locale ''b@x'' (Some ''Zed'') [] None False roster_init)))"

text \<open>
  A roster of five contacts, added in the order Zed, \<open>c@x\<close> (no display name), Amy,
  Bea, Abe; Zed is away on its phone, \<open>c@x\<close> does not want to be disturbed on its
  laptop, Bea is away on its tablet, and Amy and Abe have reported no resource.
\<close>

definition laptop :: Resource where
  "laptop = \<lparr> resource_name = ''laptop'', resource_presence = ''dnd'' \<rparr>"

definition tablet :: Resource where
  "tablet = \<lparr> resource_name = ''tablet'', resource_presence = ''away'' \<rparr>"

definition busy_ops :: "roster_op list" where
  "busy_ops =
     [Add ''b@x'' (Some ''Zed'') [''friends''] None False,
      Add ''c@x'' None [''work'', ''friends''] None False,
      Add ''a@x'' (Some ''Amy'') [] None False,
      Add ''d@x'' (Some ''Bea'') [''work''] None False,
      Add ''e@x'' (Some ''Abe'') [] None False,
      UpdatePresence ''b@x'' phone None,
      UpdatePresence ''c@x'' laptop None,
      UpdatePresence ''d@x'' tablet None]"

definition busy_state :: roster where
  "busy_state =
     \<lparr> name_ac = [''Zed'', ''c@x'', ''Amy'', ''Bea'', ''Abe''],
       barejid_ac = [''b@x'', ''c@x'', ''a@x'', ''d@x'', ''e@x''],
       fulljid_ac = [''b@x/phone'', ''c@x/laptop'', ''d@x/tablet''],
       groups_ac = [''friends'', ''work''],
       contacts =
         [(''b@x'', p_contact_set_presence
                      (p_contact_new ''b@x'' (Some ''Zed'') [''friends''] None None False) phone),
          (''c@x'', p_contact_set_presence
                      (p_contact_new ''c@x'' None [''work'', ''friends''] None None False) laptop),
          (''a@x'', p_contact_new ''a@x'' (Some ''Amy'') [] None None False),
          (''d@x'', p_contact_set_presence
                      (p_contact_new ''d@x'' (Some ''Bea'') [''work''] None None False) tablet),
          (''e@x'', p_contact_new ''e@x'' (Some ''Abe'') [] None None False)],
       name_to_barejid =
         [(''Zed'', ''b@x''), (''c@x'', ''c@x''), (''Amy'', ''a@x''), (''Bea'', ''d@x''),
          (''Abe'', ''e@x'')] \<rparr>"

subsection \<open>Invariants\<close>

text \<open>
  The name index and the name completion hold the same strings; the contacts table
  has one entry per stored key.
\<close>

definition names_in_sync :: "roster \<Rightarrow> bool" where
  "names_in_sync s \<longleftrightarrow> fst ` set (name_to_barejid s) = set (name_ac s)"

definition keys_distinct :: "roster \<Rightarrow> bool" where
  "keys_distinct s \<longleftrightarrow> distinct (map fst (contacts s))"

text \<open>
  The identifier a contact is registered under (what \<open>add_name_and_barejid\<close> is given
  for it): its display name, or its barejid when it has none.
\<close>

definition contact_ident :: "PContact \<Rightarrow> string" where
  "contact_ident c = (case p_contact_name c of Some n \<Rightarrow> n | None \<Rightarrow> p_contact_barejid c)"

definition idents_except :: "string \<Rightarrow> roster \<Rightarrow> string list" where
  "idents_except key s = map (contact_ident \<circ> snd) (filter (\<lambda>(k, c). k \<noteq> key) (contacts s))"

text \<open>
  Every contact of the table carries the barejid it is stored under, the name index
  maps its identifier to that barejid, and the name index has no other entries: each
  of its entries is the identifier of the contact stored under the barejid it points
  at.
\<close>

definition names_resolve :: "roster \<Rightarrow> bool" where
  "names_resolve s \<longleftrightarrow>
     (\<forall>k c. map_of (contacts s) k = Some c \<longrightarrow>
        p_contact_barejid c = k \<and> map_of (name_to_barejid s) (contact_ident c) = Some k) \<and>
     (\<forall>x k. map_of (name_to_barejid s) x = Some k \<longrightarrow>
        (\<exists>c. map_of (contacts s) k = Some c \<and> contact_ident c = x))"

definition names_distinct :: "roster \<Rightarrow> bool" where
  "names_distinct s \<longleftrightarrow> distinct (map fst (name_to_barejid s))"


text \<open>
  The calling discipline under which every contact keeps one entry of its own: an
  add that goes ahead is for a barejid that is not yet a key of the table (none is
  when barejids are passed lower-cased) and registers an identifier that no contact
  holds; an update is given the barejid lower-cased, and it or a change of name gives
  the contact an identifier that no other contact holds; a remove is given the
  contact's own identifier, and never the identifier of another contact.
\<close>

fun disciplined :: "env \<Rightarrow> roster_op \<Rightarrow> roster \<Rightarrow> bool" where
  "disciplined E (Add b n gs sub po) s =
     (roster_get_contact E s b = None \<longrightarrow>
        map_of (contacts s) b = None \<and>
        (case n of Some x \<Rightarrow> x | None \<Rightarrow> b) \<notin> set (idents_except b s))"
| "disciplined E (Update b n gs sub po) s =
     (g_utf8_strdown E b = b \<and> (case n of Some x \<Rightarrow> x | None \<Rightarrow> b) \<notin> set (idents_except b s))"
| "disciplined E (ChangeName k n) s =
     ((case n of Some x \<Rightarrow> x | None \<Rightarrow> k) \<notin> set (idents_except k s))"
| "disciplined E (Remove name b) s =
     (name \<notin> set (idents_except b s) \<and>
      (case map_of (contacts s) b of Some c \<Rightarrow> name = contact_ident c | None \<Rightarrow> True))"
| "disciplined E x s = True"

fun run_disciplined :: "env \<Rightarrow> roster_op list \<Rightarrow> roster \<Rightarrow> bool" where
  "run_disciplined E [] s = True"
| "run_disciplined E (x # xs) s =
     (disciplined E x s \<and>
      (case apply_op E x s of None \<Rightarrow> False | Some s' \<Rightarrow> run_disciplined E xs s'))"

section \<open>Properties\<close>

subsection \<open>Facts about the collaborators\<close>

lemma set_autocomplete_add [simp]: "set (autocomplete_add ac x) = insert x (set ac)"
  by (auto simp: autocomplete_add_def)

lemma set_autocomplete_remove [simp]: "set (autocomplete_remove ac x) = set ac - {x}"
  by (auto simp: autocomplete_remove_def)

lemma autocomplete_remove_add:
  "x \<notin> set ac \<Longrightarrow> autocomplete_remove (autocomplete_add ac x) x = ac"
  by (simp add: autocomplete_add_def autocomplete_remove_def)

lemma autocomplete_remove_absent:
  "x \<notin> set ac \<Longrightarrow> autocomplete_remove ac x = ac"
  by (simp add: autocomplete_remove_def)

lemma set_fold_add: "set (fold (\<lambda>g ac. autocomplete_add ac g) gs ac) = set ac \<union> set gs"
  by (induction gs arbitrary: ac) auto


lemma keys_insert [simp]:
  "fst ` set (g_hash_table_insert h k v) = insert k (fst ` set h)"
  by (simp add: g_hash_table_insert_def dom_update)

lemma keys_remove [simp]:
  "fst ` set (g_hash_table_remove h k) = fst ` set h - {k}"
  by (auto simp: g_hash_table_remove_def AList.delete_eq)

lemma lookup_insert:
  "map_of (g_hash_table_insert h k v) x = (if x = k then Some v else map_of h x)"
  by (simp add: g_hash_table_insert_def update_conv')

lemma lookup_remove:
  "map_of (g_hash_table_remove h k) x = (if x = k then None else map_of h x)"
  by (simp add: g_hash_table_remove_def delete_conv')

lemma remove_insert_fresh:
  "k \<notin> fst ` set h \<Longrightarrow> g_hash_table_remove (g_hash_table_insert h k v) k = h"
  by (simp add: g_hash_table_remove_def g_hash_table_insert_def delete_update_same)

lemma remove_absent_key:
  "k \<notin> fst ` set h \<Longrightarrow> g_hash_table_remove h k = h"
  by (simp add: g_hash_table_remove_def)


subsection \<open>String comparison\<close>

lemma strcmp_eq_0: "strcmp a b = 0 \<longleftrightarrow> a = b"
  by (induction a b rule: strcmp.induct) auto

lemma strcmp_swap: "strcmp b a = - strcmp a b"
  by (induction a b rule: strcmp.induct) auto

lemma strcmp_lexord:
  "strcmp a b < 0 \<longleftrightarrow> (a, b) \<in> lexord {(x, y). (of_char x :: nat) < of_char y}"
  by (induction a b rule: strcmp.induct) auto

lemma strcmp_trans: "strcmp a b \<le> 0 \<Longrightarrow> strcmp b c \<le> 0 \<Longrightarrow> strcmp a c \<le> 0"
proof (induction a b arbitrary: c rule: strcmp.induct)
  case 1
  then show ?case by simp
next
  case (2 y ys)
  then show ?case by (cases c) auto
next
  case (3 x xs)
  then show ?case by simp
next
  case (4 x xs y ys)
  then show ?case
    by (cases c) (auto split: if_splits)
qed

lemma compare_contacts_keys:
  "compare_contacts E a b =
     strcmp (case p_contact_name a of Some n \<Rightarrow> g_utf8_collate_key E n
             | None \<Rightarrow> g_utf8_collate_key E (p_contact_barejid a))
            (case p_contact_name b of Some n \<Rightarrow> g_utf8_collate_key E n
             | None \<Rightarrow> g_utf8_collate_key E (p_contact_barejid b))"
  by (simp add: compare_contacts_def p_contact_name_collate_key_def
      p_contact_barejid_collate_key_def split: option.splits)

lemma compare_contacts_total: "compare_contacts E a b > 0 \<Longrightarrow> compare_contacts E b a \<le> 0"
  unfolding compare_contacts_keys by (subst strcmp_swap) simp

lemma compare_contacts_trans:
  "compare_contacts E a b \<le> 0 \<Longrightarrow> compare_contacts E b c \<le> 0 \<Longrightarrow> compare_contacts E a c \<le> 0"
  unfolding compare_contacts_keys by (rule strcmp_trans)

lemma g_strcmp0_eq_0: "g_strcmp0 a b = 0 \<longleftrightarrow> a = b"
  by (cases a; cases b) (simp_all add: strcmp_eq_0)

lemma list_ex_strcmp: "list_ex (\<lambda>g. strcmp g grp = 0) gs \<longleftrightarrow> grp \<in> set gs"
  by (auto simp: list_ex_iff strcmp_eq_0)

lemma compare_contacts_le:
  "compare_contacts E a b \<le> 0 \<Longrightarrow>
   (case p_contact_name a of Some n \<Rightarrow> g_utf8_collate_key E n
    | None \<Rightarrow> g_utf8_collate_key E (p_contact_barejid a)) =
   (case p_contact_name b of Some n \<Rightarrow> g_utf8_collate_key E n
    | None \<Rightarrow> g_utf8_collate_key E (p_contact_barejid b)) \<or>
   ((case p_contact_name a of Some n \<Rightarrow> g_utf8_collate_key E n
     | None \<Rightarrow> g_utf8_collate_key E (p_contact_barejid a)),
    (case p_contact_name b of Some n \<Rightarrow> g_utf8_collate_key E n
     | None \<Rightarrow> g_utf8_collate_key E (p_contact_barejid b)))
     \<in> lexord {(x, y). (of_char x :: nat) < of_char y}"
proof -
  assume "compare_contacts E a b \<le> 0"
  then have "compare_contacts E a b = 0 \<or> compare_contacts E a b < 0" by arith
  then show ?thesis
    unfolding compare_contacts_keys strcmp_eq_0 strcmp_lexord .
qed

subsection \<open>Sorted insertion\<close>

lemma insert_sorted_set:
  "set (g_slist_insert_sorted xs d f) = insert d (set xs)"
  by (induction xs) auto

lemma insert_sorted_mset:
  "mset (g_slist_insert_sorted xs d f) = add_mset d (mset xs)"
  by (induction xs) auto

lemma insert_sorted_sorted:
  assumes tot: "\<And>x y. f x y > 0 \<Longrightarrow> f y x \<le> 0"
    and tr: "\<And>x y z. f x y \<le> 0 \<Longrightarrow> f y z \<le> 0 \<Longrightarrow> f x z \<le> 0"
  shows "sorted_wrt (\<lambda>a b. f a b \<le> 0) xs \<Longrightarrow>
         sorted_wrt (\<lambda>a b. f a b \<le> 0) (g_slist_insert_sorted xs d f)"
proof (induction xs)
  case Nil
  then show ?case by simp
next
  case (Cons x xs)
  show ?case
  proof (cases "f d x > 0")
    case True
    with Cons tot show ?thesis
      by (auto simp: insert_sorted_set)
  next
    case False
    then have dx: "f d x \<le> 0" by simp
    with Cons.prems tr show ?thesis by auto
  qed
qed

lemma collect_fold_sorted:
  "sorted_wrt (\<lambda>a b. compare_contacts E a b \<le> 0) acc \<Longrightarrow>
   sorted_wrt (\<lambda>a b. compare_contacts E a b \<le> 0)
     (fold (\<lambda>(key, val) result.
              if keep val then g_slist_insert_sorted result val (compare_contacts E) else result)
        kvs acc)"
proof (induction kvs arbitrary: acc)
  case Nil
  then show ?case by simp
next
  case (Cons kv kvs)
  obtain k v where kv: "kv = (k, v)" by (cases kv)
  have "sorted_wrt (\<lambda>a b. compare_contacts E a b \<le> 0)
          (g_slist_insert_sorted acc v (compare_contacts E))"
    using Cons.prems compare_contacts_total compare_contacts_trans
    by (rule_tac insert_sorted_sorted) blast+
  with Cons kv show ?case by simp
qed

lemma collect_fold_mset:
  "mset (fold (\<lambda>(key, val) result.
              if keep val then g_slist_insert_sorted result val f else result) kvs acc)
   = mset acc + mset (filter keep (map snd kvs))"
  by (induction kvs arbitrary: acc) (auto simp: insert_sorted_mset)

lemma collect_sorted_sorted:
  "sorted_wrt (\<lambda>a b. compare_contacts E a b \<le> 0) (collect_sorted E keep s)"
  unfolding collect_sorted_def by (rule collect_fold_sorted) simp

lemma collect_sorted_mset:
  "mset (collect_sorted E keep s) = mset (filter keep (map snd (contacts s)))"
  unfolding collect_sorted_def by (simp add: collect_fold_mset)

lemma insert_sorted_front:
  "\<forall>y \<in> set ys. f d y \<le> 0 \<Longrightarrow> g_slist_insert_sorted ys d f = d # ys"
  by (cases ys) auto

lemma insert_sorted_filter:
  assumes tr: "\<And>x y z. f x y \<le> 0 \<Longrightarrow> f y z \<le> 0 \<Longrightarrow> f x z \<le> 0"
  shows "sorted_wrt (\<lambda>a b. f a b \<le> 0) xs \<Longrightarrow>
         filter p (g_slist_insert_sorted xs d f) =
           (if p d then g_slist_insert_sorted (filter p xs) d f else filter p xs)"
proof (induction xs)
  case Nil
  then show ?case by simp
next
  case (Cons x xs)
  show ?case
  proof (cases "f d x > 0")
    case True
    with Cons show ?thesis by simp
  next
    case False
    then have dx: "f d x \<le> 0" by simp
    have "\<forall>y \<in> set (x # xs). f d y \<le> 0"
      using dx Cons.prems tr by auto
    then have "\<forall>y \<in> set (filter p (x # xs)). f d y \<le> 0" by auto
    then have "g_slist_insert_sorted (filter p (x # xs)) d f = d # filter p (x # xs)"
      by (rule insert_sorted_front)
    with False show ?thesis by simp
  qed
qed

lemma collect_fold_filter:
  assumes "sorted_wrt (\<lambda>a b. compare_contacts E a b \<le> 0) acc"
  shows "fold (\<lambda>(key, val) result.
              if keep val then g_slist_insert_sorted result val (compare_contacts E) else result)
           kvs (filter keep acc) =
         filter keep (fold (\<lambda>(key, val) result.
              g_slist_insert_sorted result val (compare_contacts E)) kvs acc)"
  using assms
proof (induction kvs arbitrary: acc)
  case Nil
  then show ?case by simp
next
  case (Cons kv kvs)
  obtain k v where kv: "kv = (k, v)" by (cases kv)
  have s: "sorted_wrt (\<lambda>a b. compare_contacts E a b \<le> 0)
          (g_slist_insert_sorted acc v (compare_contacts E))"
    using Cons.prems compare_contacts_total compare_contacts_trans
    by (rule_tac insert_sorted_sorted) blast+
  have f: "filter keep (g_slist_insert_sorted acc v (compare_contacts E)) =
      (if keep v then g_slist_insert_sorted (filter keep acc) v (compare_contacts E)
       else filter keep acc)"
    using compare_contacts_trans Cons.prems by (rule insert_sorted_filter)
  from Cons.IH[OF s] f kv show ?case by simp
qed

lemma collect_sorted_filter:
  "collect_sorted E keep s = filter keep (collect_sorted E (\<lambda>c. True) s)"
  using collect_fold_filter[of E "[]" keep "contacts s"]
  by (simp add: collect_sorted_def)

lemma collect_sorted_by_key:
  "sorted_wrt (\<lambda>a b.
      (case p_contact_name a of Some n \<Rightarrow> g_utf8_collate_key E n
       | None \<Rightarrow> g_utf8_collate_key E (p_contact_barejid a)) =
      (case p_contact_name b of Some n \<Rightarrow> g_utf8_collate_key E n
       | None \<Rightarrow> g_utf8_collate_key E (p_contact_barejid b)) \<or>
      ((case p_contact_name a of Some n \<Rightarrow> g_utf8_collate_key E n
        | None \<Rightarrow> g_utf8_collate_key E (p_contact_barejid a)),
       (case p_contact_name b of Some n \<Rightarrow> g_utf8_collate_key E n
        | None \<Rightarrow> g_utf8_collate_key E (p_contact_barejid b)))
        \<in> lexord {(x, y). (of_char x :: nat) < of_char y})
     (collect_sorted E keep s)"
  by (rule sorted_wrt_mono_rel[OF _ collect_sorted_sorted]) (rule compare_contacts_le)

subsection \<open>What each operation does to the fields\<close>

lemma get_contact_variant:
  "g_utf8_strdown E b' = g_utf8_strdown E b \<Longrightarrow>
   roster_get_contact E s b' = roster_get_contact E s b"
  by (simp add: roster_get_contact_def)


lemma contacts_add_name [simp]: "contacts (add_name_and_barejid n b s) = contacts s"
  by (simp add: add_name_and_barejid_def split: option.splits)

lemma contacts_replace_name [simp]: "contacts (replace_name c n b s) = contacts s"
  by (simp add: replace_name_def split: option.splits)

lemma add_present:
  "roster_get_contact E s b = Some c \<Longrightarrow> roster_add E b n gs sub po s = (False, s)"
  by (simp add: roster_add_def)

lemma add_absent_contacts:
  "roster_get_contact E s b = None \<Longrightarrow>
   fst (roster_add E b n gs sub po s) \<and>
   contacts (snd (roster_add E b n gs sub po s)) =
     AList.update b (p_contact_new b n gs sub None po) (contacts s)"
  by (simp add: roster_add_def Let_def g_hash_table_insert_def)

lemma get_contact_after_add:
  assumes "g_utf8_strdown E b = b" "roster_get_contact E s b = None" "g_utf8_strdown E b' = b"
  shows "roster_get_contact E (snd (roster_add E b n gs sub po s)) b' =
         Some (p_contact_new b n gs sub None po)"
  using add_absent_contacts[OF assms(2), of n gs sub po] assms(1,3)
  by (simp add: roster_get_contact_def g_hash_table_lookup_def update_conv')

lemma add_twice:
  assumes "g_utf8_strdown E b = b"
  shows "roster_add E b n' gs' sub' po' (snd (roster_add E b n gs sub po s)) =
         (False, snd (roster_add E b n gs sub po s))"
proof (cases "roster_get_contact E s b")
  case None
  from get_contact_after_add[OF assms None assms] show ?thesis
    by (simp add: add_present)
next
  case (Some c)
  then show ?thesis by (simp add: add_present)
qed

lemma add_registers:
  "roster_get_contact E s b = None \<Longrightarrow>
   map_of (name_to_barejid (snd (roster_add E b n gs sub po s)))
     (case n of Some x \<Rightarrow> x | None \<Rightarrow> b) = Some b"
  by (auto simp: roster_add_def Let_def add_name_and_barejid_def lookup_insert
      split: option.splits)

lemma remove_fields:
  "name_ac (roster_remove E n b s) = autocomplete_remove (name_ac s) n"
  "barejid_ac (roster_remove E n b s) = autocomplete_remove (barejid_ac s) b"
  "name_to_barejid (roster_remove E n b s) = g_hash_table_remove (name_to_barejid s) n"
  "contacts (roster_remove E n b s) = g_hash_table_remove (contacts s) b"
  "groups_ac (roster_remove E n b s) = groups_ac s"
  by (simp_all add: roster_remove_def Let_def split: option.splits)

lemma rule_previous_name:
  "let s' = replace_name (Some cur) new b s;
       ident = (case new of Some n \<Rightarrow> n | None \<Rightarrow> b)
   in ident \<in> set (name_ac s') \<and> map_of (name_to_barejid s') ident = Some b \<and>
      (cur \<noteq> ident \<longrightarrow> cur \<notin> set (name_ac s') \<and> map_of (name_to_barejid s') cur = None)"
  by (auto simp: replace_name_def add_name_and_barejid_def Let_def lookup_insert lookup_remove
      split: option.splits)

lemma rule_fallback:
  "let s' = replace_name None (Some n) b s
   in n \<in> set (name_ac s') \<and> map_of (name_to_barejid s') n = Some b \<and>
      (b \<noteq> n \<longrightarrow> b \<notin> set (name_ac s') \<and> map_of (name_to_barejid s') b = None)"
  by (auto simp: replace_name_def add_name_and_barejid_def Let_def lookup_insert lookup_remove)

lemma rule_nothing: "replace_name None None b s = s"
  by (simp add: replace_name_def)








subsection \<open>Invariants of every run\<close>

lemma run_invariant:
  assumes step: "\<And>x s s'. P s \<Longrightarrow> apply_op E x s = Some s' \<Longrightarrow> P s'"
  shows "P s \<Longrightarrow> run E xs s = Some t \<Longrightarrow> P t"
proof (induction xs arbitrary: s)
  case Nil
  then show ?case by simp
next
  case (Cons x xs)
  then show ?case
    by (auto split: option.splits dest: step)
qed

lemma sync_add_name:
  "names_in_sync s \<Longrightarrow> names_in_sync (add_name_and_barejid n b s)"
  by (auto simp: names_in_sync_def add_name_and_barejid_def split: option.splits)

lemma sync_replace_name:
  "names_in_sync s \<Longrightarrow> names_in_sync (replace_name c n b s)"
proof -
  assume a: "names_in_sync s"
  have "names_in_sync (s\<lparr> name_ac := autocomplete_remove (name_ac s) x,
                name_to_barejid := g_hash_table_remove (name_to_barejid s) x \<rparr>)" for x
    using a by (auto simp: names_in_sync_def)
  with a show ?thesis
    by (auto simp: replace_name_def intro!: sync_add_name split: option.splits)
qed

lemma sync_irrelevant [simp]:
  "names_in_sync (s\<lparr>contacts := c\<rparr>) = names_in_sync s"
  "names_in_sync (s\<lparr>groups_ac := g\<rparr>) = names_in_sync s"
  "names_in_sync (s\<lparr>fulljid_ac := f\<rparr>) = names_in_sync s"
  "names_in_sync (s\<lparr>barejid_ac := j\<rparr>) = names_in_sync s"
  by (simp_all add: names_in_sync_def)

lemma sync_remove: "names_in_sync s \<Longrightarrow> names_in_sync (roster_remove E n b s)"
  by (simp add: names_in_sync_def remove_fields)

lemma sync_step:
  "names_in_sync s \<Longrightarrow> apply_op E x s = Some s' \<Longrightarrow> names_in_sync s'"
proof (cases x)
  case (Add b n gs sub po)
  assume "names_in_sync s" "apply_op E x s = Some s'"
  with Add show ?thesis
    by (auto simp: roster_add_def Let_def intro!: sync_add_name split: option.splits)
next
  case (Update b n gs sub po)
  assume "names_in_sync s" "apply_op E x s = Some s'"
  with Update show ?thesis
    by (auto simp: roster_update_def Let_def store_contact_def intro!: sync_replace_name
        split: option.splits)
next
  case (ChangeName k n)
  assume "names_in_sync s" "apply_op E x s = Some s'"
  with ChangeName show ?thesis
    by (auto simp: roster_change_name_def Let_def intro!: sync_replace_name split: option.splits)
next
  case (Remove n b)
  assume "names_in_sync s" "apply_op E x s = Some s'"
  with Remove show ?thesis
    by (auto intro: sync_remove)
next
  case (UpdatePresence b r la)
  assume "names_in_sync s" "apply_op E x s = Some s'"
  with UpdatePresence show ?thesis
    by (auto simp: roster_update_presence_def Let_def store_contact_def split: option.splits)
next
  case (ContactOffline b r st)
  assume "names_in_sync s" "apply_op E x s = Some s'"
  with ContactOffline show ?thesis
    by (auto simp: roster_contact_offline_def Let_def store_contact_def
        split: option.splits prod.splits)
next
  case ResetSearchAttempts
  assume "names_in_sync s" "apply_op E x s = Some s'"
  with ResetSearchAttempts show ?thesis
    by (auto simp: roster_reset_search_attempts_def autocomplete_reset_def names_in_sync_def)
next
  case Clear
  assume "names_in_sync s" "apply_op E x s = Some s'"
  with Clear show ?thesis
    by (auto simp: roster_clear_def autocomplete_clear_def names_in_sync_def)
qed

lemma sync_reachable:
  "run E xs roster_init = Some t \<Longrightarrow> names_in_sync t"
proof (rule run_invariant[where P = names_in_sync])
  show "names_in_sync roster_init"
    by (simp add: names_in_sync_def roster_init_def autocomplete_new_def)
qed (auto intro: sync_step)

lemma distinct_step:
  "keys_distinct s \<Longrightarrow> apply_op E x s = Some s' \<Longrightarrow> keys_distinct s'"
proof (cases x)
  case (Add b n gs sub po)
  assume "keys_distinct s" "apply_op E x s = Some s'"
  with Add show ?thesis
    by (auto simp: roster_add_def Let_def keys_distinct_def g_hash_table_insert_def
        distinct_update split: option.splits)
next
  case (Update b n gs sub po)
  assume "keys_distinct s" "apply_op E x s = Some s'"
  with Update show ?thesis
    by (auto simp: roster_update_def Let_def keys_distinct_def store_contact_def
        distinct_update split: option.splits)
next
  case (ChangeName k n)
  assume "keys_distinct s" "apply_op E x s = Some s'"
  with ChangeName show ?thesis
    by (auto simp: roster_change_name_def Let_def keys_distinct_def distinct_update
        split: option.splits)
next
  case (Remove n b)
  assume "keys_distinct s" "apply_op E x s = Some s'"
  with Remove show ?thesis
    by (auto simp: remove_fields keys_distinct_def g_hash_table_remove_def distinct_delete)
next
  case (UpdatePresence b r la)
  assume "keys_distinct s" "apply_op E x s = Some s'"
  with UpdatePresence show ?thesis
    by (auto simp: roster_update_presence_def Let_def keys_distinct_def store_contact_def
        distinct_update split: option.splits)
next
  case (ContactOffline b r st)
  assume "keys_distinct s" "apply_op E x s = Some s'"
  with ContactOffline show ?thesis
    by (auto simp: roster_contact_offline_def Let_def keys_distinct_def store_contact_def
        distinct_update split: option.splits prod.splits)
next
  case ResetSearchAttempts
  assume "keys_distinct s" "apply_op E x s = Some s'"
  with ResetSearchAttempts show ?thesis
    by (auto simp: roster_reset_search_attempts_def keys_distinct_def)
next
  case Clear
  assume "keys_distinct s" "apply_op E x s = Some s'"
  with Clear show ?thesis
    by (auto simp: roster_clear_def keys_distinct_def)
qed

lemma distinct_reachable:
  "run E xs roster_init = Some t \<Longrightarrow> keys_distinct t"
proof (rule run_invariant[where P = keys_distinct])
  show "keys_distinct roster_init"
    by (simp add: keys_distinct_def roster_init_def)
qed (auto intro: distinct_step)

lemma groups_step:
  "x \<noteq> Clear \<Longrightarrow> apply_op E x s = Some s' \<Longrightarrow> set (groups_ac s) \<subseteq> set (groups_ac s')"
proof (cases x)
  case (Add b n gs sub po)
  assume "apply_op E x s = Some s'"
  with Add show ?thesis
    by (auto simp: roster_add_def Let_def add_name_and_barejid_def set_fold_add
        split: option.splits)
next
  case (Update b n gs sub po)
  assume "apply_op E x s = Some s'"
  with Update show ?thesis
    by (auto simp: roster_update_def Let_def store_contact_def replace_name_def
        add_name_and_barejid_def set_fold_add split: option.splits)
next
  case (ChangeName k n)
  assume "apply_op E x s = Some s'"
  with ChangeName show ?thesis
    by (auto simp: roster_change_name_def Let_def replace_name_def
        add_name_and_barejid_def split: option.splits)
next
  case (Remove n b)
  assume "apply_op E x s = Some s'"
  with Remove show ?thesis
    by (auto simp: remove_fields)
next
  case (UpdatePresence b r la)
  assume "apply_op E x s = Some s'"
  with UpdatePresence show ?thesis
    by (auto simp: roster_update_presence_def Let_def store_contact_def split: option.splits)
next
  case (ContactOffline b r st)
  assume "apply_op E x s = Some s'"
  with ContactOffline show ?thesis
    by (auto simp: roster_contact_offline_def Let_def store_contact_def
        split: option.splits prod.splits)
next
  case ResetSearchAttempts
  assume "apply_op E x s = Some s'"
  with ResetSearchAttempts show ?thesis
    by (auto simp: roster_reset_search_attempts_def autocomplete_reset_def)
next
  case Clear
  assume "x \<noteq> Clear"
  with Clear show ?thesis by simp
qed

lemma groups_run:
  "Clear \<notin> set xs \<Longrightarrow> run E xs s = Some t \<Longrightarrow> set (groups_ac s) \<subseteq> set (groups_ac t)"
proof (induction xs arbitrary: s)
  case Nil
  then show ?case by simp
next
  case (Cons x xs)
  from Cons.prems obtain s' where step: "apply_op E x s = Some s'" and rest: "run E xs s' = Some t"
    by (auto split: option.splits)
  from Cons.prems have "x \<noteq> Clear" "Clear \<notin> set xs" by auto
  with groups_step[OF _ step] Cons.IH[OF _ rest] show ?case by blast
qed

subsection \<open>Identifiers that resolve\<close>

text \<open>
  Under the calling discipline, every contact keeps exactly one entry of the name
  index, under its identifier, and the name index has no entry without a contact.
\<close>

lemma idents_exceptD:
  "x \<notin> set (idents_except key s) \<Longrightarrow> map_of (contacts s) k = Some c \<Longrightarrow> k \<noteq> key \<Longrightarrow>
   contact_ident c \<noteq> x"
  by (force simp: idents_except_def dest: map_of_SomeD)

lemma name_index_add_name:
  "map_of (name_to_barejid (add_name_and_barejid n b s)) =
     (map_of (name_to_barejid s))((case n of Some x \<Rightarrow> x | None \<Rightarrow> b) \<mapsto> b)"
  by (auto simp: add_name_and_barejid_def lookup_insert split: option.splits)

lemma name_index_replace_name:
  "map_of (name_to_barejid (replace_name cur new b s)) =
     (case cur of
        Some c \<Rightarrow> ((map_of (name_to_barejid s))(c := None))
                    ((case new of Some x \<Rightarrow> x | None \<Rightarrow> b) \<mapsto> b)
      | None \<Rightarrow> (case new of
                   Some n \<Rightarrow> ((map_of (name_to_barejid s))(b := None))(n \<mapsto> b)
                 | None \<Rightarrow> map_of (name_to_barejid s)))"
  by (auto simp: replace_name_def name_index_add_name lookup_remove split: option.splits)

lemma resolve_irrelevant [simp]:
  "names_resolve (s\<lparr>groups_ac := g\<rparr>) = names_resolve s"
  "names_resolve (s\<lparr>fulljid_ac := f\<rparr>) = names_resolve s"
  "names_resolve (s\<lparr>barejid_ac := j\<rparr>) = names_resolve s"
  "names_resolve (s\<lparr>name_ac := a\<rparr>) = names_resolve s"
  by (simp_all add: names_resolve_def)

lemma names_resolveI:
  assumes "\<And>k c. map_of (contacts s) k = Some c \<Longrightarrow> p_contact_barejid c = k"
    and "\<And>k c. map_of (contacts s) k = Some c \<Longrightarrow>
           map_of (name_to_barejid s) (contact_ident c) = Some k"
    and "\<And>x k. map_of (name_to_barejid s) x = Some k \<Longrightarrow>
           \<exists>c. map_of (contacts s) k = Some c \<and> contact_ident c = x"
  shows "names_resolve s"
  using assms unfolding names_resolve_def by blast

lemma resolve_barejid:
  "names_resolve s \<Longrightarrow> map_of (contacts s) k = Some c \<Longrightarrow> p_contact_barejid c = k"
  unfolding names_resolve_def by blast

lemma resolve_entry:
  "names_resolve s \<Longrightarrow> map_of (contacts s) k = Some c \<Longrightarrow>
   map_of (name_to_barejid s) (contact_ident c) = Some k"
  unfolding names_resolve_def by blast

lemma resolve_owner:
  "names_resolve s \<Longrightarrow> map_of (name_to_barejid s) x = Some k \<Longrightarrow>
   \<exists>c. map_of (contacts s) k = Some c \<and> contact_ident c = x"
  unfolding names_resolve_def by blast

lemma resolve_inj:
  assumes inv: "names_resolve s"
    and kc: "map_of (contacts s) k = Some c" and kc': "map_of (contacts s) k' = Some c'"
    and eq: "contact_ident c = contact_ident c'"
  shows "k = k'"
  using resolve_entry[OF inv kc] resolve_entry[OF inv kc'] eq by simp

lemma resolve_only:
  assumes inv: "names_resolve s"
    and kc: "map_of (contacts s) k = Some c" and x: "map_of (name_to_barejid s) x = Some k"
  shows "x = contact_ident c"
  using resolve_owner[OF inv x] kc by auto

text \<open>Replacing or inserting the contact at one key, and registering its identifier.\<close>

lemma resolve_put:
  assumes inv: "names_resolve s"
    and C: "map_of (contacts t) = (map_of (contacts s))(b \<mapsto> c')"
    and N: "\<And>x. x \<noteq> i \<Longrightarrow> x \<noteq> old \<Longrightarrow> map_of (name_to_barejid t) x = map_of (name_to_barejid s) x"
    and Ni: "map_of (name_to_barejid t) i = Some b"
    and Nold: "old \<noteq> i \<Longrightarrow> map_of (name_to_barejid t) old = None"
    and bj: "p_contact_barejid c' = b"
    and id: "contact_ident c' = i"
    and atb: "\<And>c. map_of (contacts s) b = Some c \<Longrightarrow> contact_ident c = old"
    and others: "\<And>k c. map_of (contacts s) k = Some c \<Longrightarrow> k \<noteq> b \<Longrightarrow>
                   contact_ident c \<noteq> i \<and> contact_ident c \<noteq> old"
  shows "names_resolve t"
proof (rule names_resolveI)
  fix k c assume kc: "map_of (contacts t) k = Some c"
  show "p_contact_barejid c = k"
  proof (cases "k = b")
    case True
    with kc C bj show ?thesis by simp
  next
    case False
    with kc C have "map_of (contacts s) k = Some c" by simp
    then show ?thesis by (rule resolve_barejid[OF inv])
  qed
  show "map_of (name_to_barejid t) (contact_ident c) = Some k"
  proof (cases "k = b")
    case True
    with kc C id Ni show ?thesis by simp
  next
    case False
    with kc C have old: "map_of (contacts s) k = Some c" by simp
    from others[OF old False] N have
      "map_of (name_to_barejid t) (contact_ident c) = map_of (name_to_barejid s) (contact_ident c)"
      by simp
    with resolve_entry[OF inv old] show ?thesis by simp
  qed
next
  fix x k assume xk: "map_of (name_to_barejid t) x = Some k"
  show "\<exists>c. map_of (contacts t) k = Some c \<and> contact_ident c = x"
  proof (cases "x = i")
    case True
    with xk Ni have "k = b" by simp
    with C id True show ?thesis by simp
  next
    case False
    with xk Nold have xo: "x \<noteq> old" by auto
    with False N xk have "map_of (name_to_barejid s) x = Some k" by simp
    from resolve_owner[OF inv this] obtain c where
      c: "map_of (contacts s) k = Some c" "contact_ident c = x" by blast
    with atb xo have "k \<noteq> b" by auto
    with c C show ?thesis by simp
  qed
qed

lemma resolve_add:
  assumes inv: "names_resolve s" and d: "disciplined E (Add b n gs sub po) s"
  shows "names_resolve (snd (roster_add E b n gs sub po s))"
proof (cases "roster_get_contact E s b")
  case (Some c)
  with inv show ?thesis by (simp add: roster_add_def)
next
  case None
  let ?i = "case n of Some x \<Rightarrow> x | None \<Rightarrow> b"
  let ?t = "snd (roster_add E b n gs sub po s)"
  from d None have absent: "map_of (contacts s) b = None"
    and fresh: "?i \<notin> set (idents_except b s)" by simp_all
  show ?thesis
  proof (rule resolve_put[OF inv, where b = b and i = ?i and old = ?i])
    show "map_of (contacts ?t) = (map_of (contacts s))(b \<mapsto> p_contact_new b n gs sub None po)"
      using add_absent_contacts[OF None] by (simp add: update_conv')
    show "map_of (name_to_barejid ?t) x = map_of (name_to_barejid s) x" if "x \<noteq> ?i" for x
      using that by (simp add: roster_add_def None Let_def name_index_add_name)
    show "map_of (name_to_barejid ?t) ?i = Some b"
      using None by (rule add_registers)
    show "p_contact_barejid (p_contact_new b n gs sub None po) = b"
      by (simp add: p_contact_new_def)
    show "contact_ident (p_contact_new b n gs sub None po) = ?i"
      by (simp add: contact_ident_def p_contact_new_def split: option.splits)
    show "contact_ident c = ?i" if "map_of (contacts s) b = Some c" for c
      using that absent by simp
    show "contact_ident c \<noteq> ?i \<and> contact_ident c \<noteq> ?i"
      if "map_of (contacts s) k = Some c" "k \<noteq> b" for k c
      using idents_exceptD[OF fresh that] by simp
  qed simp
qed

lemma resolve_rename:
  assumes inv: "names_resolve s"
    and at: "map_of (contacts s) k = Some c"
    and c': "p_contact_barejid c' = k" "p_contact_name c' = n"
    and fresh: "(case n of Some x \<Rightarrow> x | None \<Rightarrow> k) \<notin> set (idents_except k s)"
  shows "names_resolve
           (replace_name (p_contact_name c) n k (s\<lparr>contacts := AList.update k c' (contacts s)\<rparr>))"
proof -
  let ?i = "case n of Some x \<Rightarrow> x | None \<Rightarrow> k"
  let ?t = "replace_name (p_contact_name c) n k (s\<lparr>contacts := AList.update k c' (contacts s)\<rparr>)"
  from resolve_barejid[OF inv at] have old_ident:
    "contact_ident c = (case p_contact_name c of Some x \<Rightarrow> x | None \<Rightarrow> k)"
    by (simp add: contact_ident_def split: option.splits)
  have entry: "map_of (name_to_barejid s) (contact_ident c) = Some k"
    by (rule resolve_entry[OF inv at])
  show ?thesis
  proof (rule resolve_put[OF inv, where b = k and i = ?i and old = "contact_ident c"])
    show "map_of (contacts ?t) = (map_of (contacts s))(k \<mapsto> c')"
      by (simp add: update_conv')
    show "map_of (name_to_barejid ?t) x = map_of (name_to_barejid s) x"
      if "x \<noteq> ?i" "x \<noteq> contact_ident c" for x
      using that old_ident
      by (auto simp: name_index_replace_name split: option.splits)
    show "map_of (name_to_barejid ?t) ?i = Some k"
      using old_ident entry
      by (auto simp: name_index_replace_name split: option.splits)
    show "map_of (name_to_barejid ?t) (contact_ident c) = None" if "contact_ident c \<noteq> ?i"
      using that old_ident
      by (auto simp: name_index_replace_name split: option.splits)
    show "p_contact_barejid c' = k" by (rule c')
    show "contact_ident c' = ?i"
      using c' by (simp add: contact_ident_def split: option.splits)
    show "contact_ident d = contact_ident c" if "map_of (contacts s) k = Some d" for d
      using that at by simp
    show "contact_ident d \<noteq> ?i \<and> contact_ident d \<noteq> contact_ident c"
      if "map_of (contacts s) j = Some d" "j \<noteq> k" for j d
      using idents_exceptD[OF fresh that] resolve_inj[OF inv that(1) at] that(2) by auto
  qed
qed

lemma resolve_update:
  assumes inv: "names_resolve s" and d: "disciplined E (Update b n gs sub po) s"
    and run: "roster_update E b n gs sub po s = Some s'"
  shows "names_resolve s'"
proof -
  from d have low: "g_utf8_strdown E b = b"
    and fresh: "(case n of Some x \<Rightarrow> x | None \<Rightarrow> b) \<notin> set (idents_except b s)"
    by simp_all
  from run obtain c where at: "roster_get_contact E s b = Some c"
    by (auto simp: roster_update_def split: option.splits)
  with low have at': "map_of (contacts s) b = Some c"
    by (simp add: roster_get_contact_def g_hash_table_lookup_def)
  let ?c4 = "p_contact_set_groups (p_contact_set_name (p_contact_set_pending_out
      (p_contact_set_subscription c sub) po) n) gs"
  have c4: "p_contact_barejid ?c4 = b" "p_contact_name ?c4 = n"
    using resolve_barejid[OF inv at']
    by (simp_all add: p_contact_set_groups_def p_contact_set_name_def
        p_contact_set_pending_out_def p_contact_set_subscription_def)
  from run at low have "s' = (replace_name (p_contact_name c) n b
      (s\<lparr>contacts := AList.update b ?c4 (contacts s)\<rparr>))
      \<lparr>groups_ac := fold (\<lambda>g ac. autocomplete_add ac g) gs
         (groups_ac (replace_name (p_contact_name c) n b
            (s\<lparr>contacts := AList.update b ?c4 (contacts s)\<rparr>)))\<rparr>"
    by (simp add: roster_update_def Let_def store_contact_def)
  with resolve_rename[OF inv at' c4 fresh] show ?thesis by simp
qed

lemma resolve_change_name:
  assumes inv: "names_resolve s" and d: "disciplined E (ChangeName k n) s"
    and run: "roster_change_name k n s = Some s'"
  shows "names_resolve s'"
proof -
  from d have fresh: "(case n of Some x \<Rightarrow> x | None \<Rightarrow> k) \<notin> set (idents_except k s)"
    by simp
  from run obtain c where at: "map_of (contacts s) k = Some c"
    by (auto simp: roster_change_name_def g_hash_table_lookup_def split: option.splits)
  have c': "p_contact_barejid (p_contact_set_name c n) = k"
    "p_contact_name (p_contact_set_name c n) = n"
    using resolve_barejid[OF inv at] by (simp_all add: p_contact_set_name_def)
  from run at resolve_barejid[OF inv at]
  have "s' = replace_name (p_contact_name c) n k
      (s\<lparr>contacts := AList.update k (p_contact_set_name c n) (contacts s)\<rparr>)"
    by (simp add: roster_change_name_def g_hash_table_lookup_def Let_def)
  with resolve_rename[OF inv at c' fresh] show ?thesis by simp
qed

lemma resolve_remove:
  assumes inv: "names_resolve s" and d: "disciplined E (Remove name b) s"
  shows "names_resolve (roster_remove E name b s)"
proof -
  let ?t = "roster_remove E name b s"
  from d have fresh: "name \<notin> set (idents_except b s)"
    and own: "\<And>c. map_of (contacts s) b = Some c \<Longrightarrow> name = contact_ident c"
    by simp_all
  have C: "map_of (contacts ?t) = (map_of (contacts s))(b := None)"
    by (simp add: remove_fields g_hash_table_remove_def delete_conv')
  have N: "map_of (name_to_barejid ?t) = (map_of (name_to_barejid s))(name := None)"
    by (simp add: remove_fields g_hash_table_remove_def delete_conv')
  have old: "map_of (contacts s) k = Some c \<and> k \<noteq> b" if "map_of (contacts ?t) k = Some c" for k c
    using that C by (cases "k = b") simp_all
  show ?thesis
  proof (rule names_resolveI)
    fix k c assume kc: "map_of (contacts ?t) k = Some c"
    from old[OF kc] show "p_contact_barejid c = k"
      using resolve_barejid[OF inv] by simp
    from old[OF kc] idents_exceptD[OF fresh, of k c] have "contact_ident c \<noteq> name" by simp
    with old[OF kc] resolve_entry[OF inv, of k c] N
    show "map_of (name_to_barejid ?t) (contact_ident c) = Some k" by simp
  next
    fix x k assume xk: "map_of (name_to_barejid ?t) x = Some k"
    with N have xn: "x \<noteq> name" and xs: "map_of (name_to_barejid s) x = Some k"
      by (auto split: if_splits)
    from resolve_owner[OF inv xs] obtain c where
      c: "map_of (contacts s) k = Some c" "contact_ident c = x" by blast
    with own xn have "k \<noteq> b" by auto
    with c C show "\<exists>c. map_of (contacts ?t) k = Some c \<and> contact_ident c = x" by simp
  qed
qed

lemma resolve_touch:
  assumes inv: "names_resolve s" and at: "map_of (contacts s) k = Some c"
    and same: "p_contact_barejid c' = p_contact_barejid c" "p_contact_name c' = p_contact_name c"
  shows "names_resolve (s\<lparr>contacts := AList.update k c' (contacts s)\<rparr>)"
proof -
  have id: "contact_ident c' = contact_ident c"
    using same by (simp add: contact_ident_def split: option.splits)
  show ?thesis
  proof (rule resolve_put[OF inv, where b = k and i = "contact_ident c" and old = "contact_ident c"])
    show "map_of (contacts (s\<lparr>contacts := AList.update k c' (contacts s)\<rparr>)) =
        (map_of (contacts s))(k \<mapsto> c')"
      by (simp add: update_conv')
    show "map_of (name_to_barejid (s\<lparr>contacts := AList.update k c' (contacts s)\<rparr>))
        (contact_ident c) = Some k"
      using resolve_entry[OF inv at] by simp
    show "p_contact_barejid c' = k"
      using same resolve_barejid[OF inv at] by simp
    show "contact_ident c' = contact_ident c" by (rule id)
    show "contact_ident d = contact_ident c" if "map_of (contacts s) k = Some d" for d
      using that at by simp
    show "contact_ident d \<noteq> contact_ident c \<and> contact_ident d \<noteq> contact_ident c"
      if "map_of (contacts s) j = Some d" "j \<noteq> k" for j d
      using resolve_inj[OF inv that(1) at] that(2) by auto
  qed simp_all
qed

lemma resolve_update_presence:
  assumes inv: "names_resolve s"
  shows "names_resolve (snd (roster_update_presence E b r la s))"
proof (cases "roster_get_contact E s b")
  case None
  with inv show ?thesis by (simp add: roster_update_presence_def)
next
  case (Some c)
  then have at: "map_of (contacts s) (g_utf8_strdown E b) = Some c"
    by (simp add: roster_get_contact_def g_hash_table_lookup_def)
  let ?c2 = "p_contact_set_presence
      (if \<not> datetimes_equal (p_contact_last_activity c) la
       then p_contact_set_last_activity c la else c) r"
  have "names_resolve (s\<lparr>contacts := AList.update (g_utf8_strdown E b) ?c2 (contacts s)\<rparr>)"
    by (rule resolve_touch[OF inv at])
      (simp_all add: p_contact_set_presence_def p_contact_set_last_activity_def)
  with Some show ?thesis
    by (simp add: roster_update_presence_def Let_def store_contact_def)
qed

lemma resolve_contact_offline:
  assumes inv: "names_resolve s"
  shows "names_resolve (snd (roster_contact_offline E b r st s))"
proof (cases "roster_get_contact E s b")
  case None
  with inv show ?thesis by (simp add: roster_contact_offline_def)
next
  case (Some c)
  then have at: "map_of (contacts s) (g_utf8_strdown E b) = Some c"
    by (simp add: roster_get_contact_def g_hash_table_lookup_def)
  show ?thesis
  proof (cases r)
    case None
    with Some inv show ?thesis by (simp add: roster_contact_offline_def)
  next
    case (Some x)
    have "names_resolve (s\<lparr>contacts := AList.update (g_utf8_strdown E b)
        (snd (p_contact_remove_resource c x)) (contacts s)\<rparr>)"
      by (rule resolve_touch[OF inv at]) (simp_all add: p_contact_remove_resource_def)
    with Some \<open>roster_get_contact E s b = Some c\<close> show ?thesis
      by (simp add: roster_contact_offline_def Let_def split_beta store_contact_def)
  qed
qed

lemma resolve_step:
  assumes inv: "names_resolve s" and d: "disciplined E x s" and run: "apply_op E x s = Some s'"
  shows "names_resolve s'"
proof (cases x)
  case (Add b n gs sub po)
  with resolve_add[OF inv] d run show ?thesis by auto
next
  case (Update b n gs sub po)
  with resolve_update[OF inv] d run show ?thesis by auto
next
  case (ChangeName k n)
  with resolve_change_name[OF inv] d run show ?thesis by auto
next
  case (Remove n b)
  with resolve_remove[OF inv] d run show ?thesis by auto
next
  case (UpdatePresence b r la)
  with resolve_update_presence[OF inv] run show ?thesis by auto
next
  case (ContactOffline b r st)
  with resolve_contact_offline[OF inv] run show ?thesis by auto
next
  case ResetSearchAttempts
  with inv run show ?thesis
    by (auto simp: roster_reset_search_attempts_def)
next
  case Clear
  with run show ?thesis
    by (auto simp: roster_clear_def names_resolve_def)
qed

lemma resolve_run:
  "names_resolve s \<Longrightarrow> run_disciplined E xs s \<Longrightarrow> run E xs s = Some t \<Longrightarrow> names_resolve t"
proof (induction xs arbitrary: s)
  case Nil
  then show ?case by simp
next
  case (Cons x xs)
  then show ?case
    by (auto split: option.splits dest: resolve_step)
qed

lemma resolve_init: "names_resolve roster_init"
  by (simp add: names_resolve_def roster_init_def)

text \<open>The keys of the name index and the strings of the full-jid completion stay distinct.\<close>

lemma names_distinct_add_name:
  "names_distinct s \<Longrightarrow> names_distinct (add_name_and_barejid n b s)"
  by (simp add: names_distinct_def add_name_and_barejid_def g_hash_table_insert_def
      distinct_update split: option.splits)

lemma names_distinct_replace_name:
  "names_distinct s \<Longrightarrow> names_distinct (replace_name c n b s)"
proof -
  assume a: "names_distinct s"
  have "names_distinct (s\<lparr> name_ac := autocomplete_remove (name_ac s) x,
                name_to_barejid := g_hash_table_remove (name_to_barejid s) x \<rparr>)" for x
    using a by (simp add: names_distinct_def g_hash_table_remove_def distinct_delete)
  with a show ?thesis
    by (auto simp: replace_name_def intro!: names_distinct_add_name split: option.splits)
qed

lemma names_distinct_irrelevant [simp]:
  "names_distinct (s\<lparr>contacts := c\<rparr>) = names_distinct s"
  "names_distinct (s\<lparr>groups_ac := g\<rparr>) = names_distinct s"
  "names_distinct (s\<lparr>fulljid_ac := f\<rparr>) = names_distinct s"
  "names_distinct (s\<lparr>barejid_ac := j\<rparr>) = names_distinct s"
  by (simp_all add: names_distinct_def)

lemma names_distinct_remove:
  "names_distinct s \<Longrightarrow> names_distinct (roster_remove E n b s)"
  by (simp add: names_distinct_def remove_fields g_hash_table_remove_def distinct_delete)

lemma names_distinct_step:
  "names_distinct s \<Longrightarrow> apply_op E x s = Some s' \<Longrightarrow> names_distinct s'"
proof (cases x)
  case (Add b n gs sub po)
  assume "names_distinct s" "apply_op E x s = Some s'"
  with Add show ?thesis
    by (auto simp: roster_add_def Let_def intro!: names_distinct_add_name split: option.splits)
next
  case (Update b n gs sub po)
  assume "names_distinct s" "apply_op E x s = Some s'"
  with Update show ?thesis
    by (auto simp: roster_update_def Let_def store_contact_def
        intro!: names_distinct_replace_name split: option.splits)
next
  case (ChangeName k n)
  assume "names_distinct s" "apply_op E x s = Some s'"
  with ChangeName show ?thesis
    by (auto simp: roster_change_name_def Let_def intro!: names_distinct_replace_name
        split: option.splits)
next
  case (Remove n b)
  assume "names_distinct s" "apply_op E x s = Some s'"
  with Remove show ?thesis
    by (auto intro: names_distinct_remove)
next
  case (UpdatePresence b r la)
  assume "names_distinct s" "apply_op E x s = Some s'"
  with UpdatePresence show ?thesis
    by (auto simp: roster_update_presence_def Let_def store_contact_def split: option.splits)
next
  case (ContactOffline b r st)
  assume "names_distinct s" "apply_op E x s = Some s'"
  with ContactOffline show ?thesis
    by (auto simp: roster_contact_offline_def Let_def store_contact_def
        split: option.splits prod.splits)
next
  case ResetSearchAttempts
  assume "names_distinct s" "apply_op E x s = Some s'"
  with ResetSearchAttempts show ?thesis
    by (auto simp: roster_reset_search_attempts_def names_distinct_def)
next
  case Clear
  assume "names_distinct s" "apply_op E x s = Some s'"
  with Clear show ?thesis
    by (auto simp: roster_clear_def names_distinct_def)
qed

lemma names_distinct_reachable:
  "run E xs roster_init = Some t \<Longrightarrow> names_distinct t"
proof (rule run_invariant[where P = names_distinct])
  show "names_distinct roster_init"
    by (simp add: names_distinct_def roster_init_def)
qed (auto intro: names_distinct_step)






text \<open>A contact's entries in the name index, as a list.\<close>

lemma distinct_singleton:
  assumes d: "distinct xs" and s: "set xs = {a}"
  shows "xs = [a]"
proof (cases xs)
  case Nil
  with s show ?thesis by simp
next
  case (Cons y ys)
  from s Cons have y: "y = a" by auto
  from d Cons y have "a \<notin> set ys" by simp
  moreover from s Cons have "set ys \<subseteq> {a}" by auto
  ultimately have "ys = []" by (cases ys) auto
  with Cons y show ?thesis by simp
qed

lemma resolve_one_entry:
  assumes inv: "names_resolve s" and d: "names_distinct s"
    and kc: "map_of (contacts s) k = Some c"
  shows "filter (\<lambda>(x, j). j = k) (name_to_barejid s) = [(contact_ident c, k)]"
proof (rule distinct_singleton)
  from d have dn: "distinct (map fst (name_to_barejid s))"
    by (simp add: names_distinct_def)
  then have "distinct (name_to_barejid s)"
    by (simp add: distinct_map)
  then show "distinct (filter (\<lambda>(x, j). j = k) (name_to_barejid s))"
    by (rule distinct_filter)
  have here: "(contact_ident c, k) \<in> set (name_to_barejid s)"
    using resolve_entry[OF inv kc] by (rule map_of_SomeD)
  have only: "x = contact_ident c" if "(x, k) \<in> set (name_to_barejid s)" for x
  proof -
    from dn that have "map_of (name_to_barejid s) x = Some k" by simp
    with inv kc show ?thesis by (rule resolve_only)
  qed
  show "set (filter (\<lambda>(x, j). j = k) (name_to_barejid s)) = {(contact_ident c, k)}"
  proof (rule set_eqI)
    fix p :: "string \<times> string"
    obtain x j where p: "p = (x, j)" by (cases p)
    show "p \<in> set (filter (\<lambda>(x, j). j = k) (name_to_barejid s)) \<longleftrightarrow> p \<in> {(contact_ident c, k)}"
    proof
      assume "p \<in> set (filter (\<lambda>(x, j). j = k) (name_to_barejid s))"
      with p have "j = k" "(x, k) \<in> set (name_to_barejid s)" by auto
      with only[of x] p show "p \<in> {(contact_ident c, k)}" by simp
    next
      assume "p \<in> {(contact_ident c, k)}"
      with here show "p \<in> set (filter (\<lambda>(x, j). j = k) (name_to_barejid s))" by simp
    qed
  qed
qed

text \<open>
  Each proviso of the discipline is needed. Without it a contact ends with two
  entries, with an entry that points elsewhere, or with none: an add that goes ahead
  for a key of the table (stored in mixed case, which the lookup misses); an update
  given the barejid in another spelling than the key; a change of name to an
  identifier that another contact holds; a remove under a string that is not the
  contact's identifier, followed by an add of the same barejid; a remove, for an
  absent barejid, under the identifier of a contact.
\<close>

lemma discipline_provisos_needed:
  "map_option (\<lambda>t. (map fst (contacts t), name_to_barejid t))
     (run c_locale [Add ''A@x'' (Some ''Bob'') [] None False,
                    Add ''A@x'' (Some ''Rob'') [] None False] roster_init)
     = Some ([''A@x''], [(''Bob'', ''A@x''), (''Rob'', ''A@x'')]) \<and>
   \<not> run_disciplined c_locale [Add ''A@x'' (Some ''Bob'') [] None False,
                    Add ''A@x'' (Some ''Rob'') [] None False] roster_init \<and>
   map_option (\<lambda>t. (map fst (contacts t), name_to_barejid t))
     (run c_locale [Add ''a@x'' (Some ''Bob'') [] None False,
                    Update ''A@x'' (Some ''Rob'') [] None False] roster_init)
     = Some ([''a@x''], [(''Rob'', ''A@x'')]) \<and>
   \<not> run_disciplined c_locale [Add ''a@x'' (Some ''Bob'') [] None False,
                    Update ''A@x'' (Some ''Rob'') [] None False] roster_init \<and>
   map_option (\<lambda>t. (map fst (contacts t), name_to_barejid t))
     (run c_locale [Add ''a@x'' (Some ''Bob'') [] None False,
                    Add ''b@x'' (Some ''Rob'') [] None False,
                    ChangeName ''b@x'' (Some ''Bob'')] roster_init)
     = Some ([''a@x'', ''b@x''], [(''Bob'', ''b@x'')]) \<and>
   \<not> run_disciplined c_locale [Add ''a@x'' (Some ''Bob'') [] None False,
                    Add ''b@x'' (Some ''Rob'') [] None False,
                    ChangeName ''b@x'' (Some ''Bob'')] roster_init \<and>
   map_option (\<lambda>t. (map fst (contacts t), name_to_barejid t))
     (run c_locale [Add ''a@x'' (Some ''Bob'') [] None False,
                    Remove ''Rob'' ''a@x'',
                    Add ''a@x'' (Some ''Rob'') [] None False] roster_init)
     = Some ([''a@x''], [(''Bob'', ''a@x''), (''Rob'', ''a@x'')]) \<and>
   \<not> run_disciplined c_locale [Add ''a@x'' (Some ''Bob'') [] None False,
                    Remove ''Rob'' ''a@x'',
                    Add ''a@x'' (Some ''Rob'') [] None False] roster_init \<and>
   map_option (\<lambda>t. (map fst (contacts t), name_to_barejid t))
     (run c_locale [Add ''a@x'' (Some ''Bob'') [] None False,
                    Remove ''Bob'' ''b@x''] roster_init)
     = Some ([''a@x''], []) \<and>
   \<not> run_disciplined c_locale [Add ''a@x'' (Some ''Bob'') [] None False,
                    Remove ''Bob'' ''b@x''] roster_init"
  by code_simp

section \<open>The claims\<close>

subsection \<open>Lookup and storage keys\<close>

text \<open>
  C1. The claim has the barejid lower-cased before lookup and before storage, so that
  the contacts table holds at most one entry per address, whatever its spelling. The
  code lower-cases in \<open>roster_get_contact\<close> only; \<open>roster_add\<close> stores the key as it was
  passed. Adding \<open>A@x\<close> to the empty roster succeeds and stores the key \<open>A@x\<close>;
  afterwards no spelling finds that contact, and \<open>a@x\<close> is added beside it, which
  leaves two entries whose keys lower-case to the same string.
\<close>

theorem add_mixed_case_unreachable:
  "mixed_case_state = snd (roster_add c_locale ''A@x'' (Some ''Bob'') [] None False roster_init) \<and>
   fst (roster_add c_locale ''A@x'' (Some ''Bob'') [] None False roster_init) \<and>
   map fst (contacts mixed_case_state) = [''A@x''] \<and>
   roster_get_contact c_locale mixed_case_state ''A@x'' = None \<and>
   roster_get_contact c_locale mixed_case_state ''a@x'' = None \<and>
   fst (roster_add c_locale ''a@x'' None [] None False mixed_case_state) \<and>
   map fst (contacts (snd (roster_add c_locale ''a@x'' None [] None False mixed_case_state)))
     = [''A@x'', ''a@x''] \<and>
   g_utf8_strdown c_locale ''A@x'' = g_utf8_strdown c_locale ''a@x''"
  by code_simp

text \<open>
  What the code does give, for every environment and state: in every state reached
  from \<open>roster_init\<close> the table has one entry per stored key; \<open>roster_get_contact\<close> gives
  the same result for any two spellings that lower-case to the same string; and when
  \<open>b\<close> is already lower-case and unknown, \<open>roster_add\<close> succeeds and every case variant of
  \<open>b\<close> then finds the contact just created.
\<close>

lemma lookup_any_spelling:
  "(run E xs roster_init = Some t \<longrightarrow> distinct (map fst (contacts t))) \<and>
   (g_utf8_strdown E v = g_utf8_strdown E b \<longrightarrow>
      roster_get_contact E s v = roster_get_contact E s b) \<and>
   (g_utf8_strdown E b = b \<and> roster_get_contact E s b = None \<and> g_utf8_strdown E v = b \<longrightarrow>
      fst (roster_add E b n gs sub po s) \<and>
      roster_get_contact E (snd (roster_add E b n gs sub po s)) v =
        Some (p_contact_new b n gs sub None po))"
proof (intro conjI impI)
  assume "run E xs roster_init = Some t"
  then show "distinct (map fst (contacts t))"
    using distinct_reachable by (simp add: keys_distinct_def)
next
  assume "g_utf8_strdown E v = g_utf8_strdown E b"
  then show "roster_get_contact E s v = roster_get_contact E s b"
    by (rule get_contact_variant)
next
  assume a: "g_utf8_strdown E b = b \<and> roster_get_contact E s b = None \<and> g_utf8_strdown E v = b"
  then show "fst (roster_add E b n gs sub po s)"
    by (simp add: add_absent_contacts)
  from a show "roster_get_contact E (snd (roster_add E b n gs sub po s)) v =
        Some (p_contact_new b n gs sub None po)"
    by (simp add: get_contact_after_add)
qed

lemma lookup_any_spelling_example:
  "(run c_locale [Add ''amy@x'' (Some ''Amy'') [''friends''] (Some ''both'') False] roster_init
      = Some amy_state \<and>
    g_utf8_strdown c_locale ''Amy@X'' = g_utf8_strdown c_locale ''amy@x'' \<and>
    g_utf8_strdown c_locale ''amy@x'' = ''amy@x'' \<and>
    roster_get_contact c_locale roster_init ''amy@x'' = None \<and>
    g_utf8_strdown c_locale ''Amy@X'' = ''amy@x'') \<and>
   distinct (map fst (contacts amy_state)) \<and>
   roster_get_contact c_locale roster_init ''Amy@X'' =
     roster_get_contact c_locale roster_init ''amy@x'' \<and>
   fst (roster_add c_locale ''amy@x'' (Some ''Amy'') [''friends''] (Some ''both'') False
          roster_init) \<and>
   roster_get_contact c_locale
     (snd (roster_add c_locale ''amy@x'' (Some ''Amy'') [''friends''] (Some ''both'') False
             roster_init)) ''Amy@X'' =
     Some (p_contact_new ''amy@x'' (Some ''Amy'') [''friends''] (Some ''both'') None False)"
proof -
  have hyps: "run c_locale [Add ''amy@x'' (Some ''Amy'') [''friends''] (Some ''both'') False]
      roster_init = Some amy_state \<and>
    g_utf8_strdown c_locale ''Amy@X'' = g_utf8_strdown c_locale ''amy@x'' \<and>
    g_utf8_strdown c_locale ''amy@x'' = ''amy@x'' \<and>
    roster_get_contact c_locale roster_init ''amy@x'' = None \<and>
    g_utf8_strdown c_locale ''Amy@X'' = ''amy@x''"
    by code_simp
  from hyps lookup_any_spelling [where E = c_locale and t = amy_state and s = roster_init
      and xs = "[Add ''amy@x'' (Some ''Amy'') [''friends''] (Some ''both'') False]"
      and v = "''Amy@X''" and b = "''amy@x''" and n = "Some ''Amy''" and gs = "[''friends'']"
      and sub = "Some ''both''" and po = False]
  show ?thesis by blast
qed

subsection \<open>Adding, then removing\<close>

text \<open>
  C2, as amended. Let \<open>barejid\<close> be absent from the contacts table and from the
  barejid completion, and let the identifier it would be registered under (the name,
  or the barejid when there is no name) be absent from the name completion. Then
  \<open>roster_add\<close> followed by \<open>roster_remove\<close> with that identifier and barejid restores
  the contacts table, the barejid completion and the name completion.
\<close>

theorem add_then_remove:
  assumes fresh_key: "barejid \<notin> fst ` set (contacts s)"
    and fresh_jid: "barejid \<notin> set (barejid_ac s)"
    and fresh_name: "(case name of Some n \<Rightarrow> n | None \<Rightarrow> barejid) \<notin> set (name_ac s)"
  shows "let s1 = snd (roster_add E barejid name groups subscription pending_out s);
             s2 = roster_remove E (case name of Some n \<Rightarrow> n | None \<Rightarrow> barejid) barejid s1
         in contacts s2 = contacts s \<and> barejid_ac s2 = barejid_ac s \<and> name_ac s2 = name_ac s"
proof (cases "roster_get_contact E s barejid")
  case None
  with assms show ?thesis
    by (auto simp: roster_add_def remove_fields Let_def add_name_and_barejid_def
        autocomplete_remove_add remove_insert_fresh split: option.splits)
next
  case (Some c)
  with assms show ?thesis
    by (simp add: roster_add_def remove_fields autocomplete_remove_absent remove_absent_key)
qed

theorem add_then_remove_witness:
  "(''b@x'' \<notin> fst ` set (contacts amy_state) \<and> ''b@x'' \<notin> set (barejid_ac amy_state) \<and>
    ''Bob'' \<notin> set (name_ac amy_state)) \<and>
   (let s1 = snd (roster_add c_locale ''b@x'' (Some ''Bob'') [''work''] None False amy_state);
        s2 = roster_remove c_locale ''Bob'' ''b@x'' s1
    in contacts s2 = contacts amy_state \<and> barejid_ac s2 = barejid_ac amy_state \<and>
       name_ac s2 = name_ac amy_state)"
proof -
  have hyps: "''b@x'' \<notin> fst ` set (contacts amy_state) \<and>
      ''b@x'' \<notin> set (barejid_ac amy_state) \<and> ''Bob'' \<notin> set (name_ac amy_state)"
    by code_simp
  from hyps add_then_remove [where E = c_locale and s = amy_state and barejid = "''b@x''"
      and name = "Some ''Bob''" and groups = "[''work'']" and subscription = None
      and pending_out = False]
  show ?thesis by simp
qed

text \<open>
  C2 as stated fails when the new contact shares its display name with a contact
  already there: the name completion holds \<open>Bob\<close> once, so adding \<open>b@x\<close> as \<open>Bob\<close> and
  removing it again deletes the \<open>Bob\<close> that \<open>a@x\<close> registered.
\<close>

theorem add_then_remove_counterexample:
  "roster_get_contact c_locale bob_state ''b@x'' = None \<and>
   ''b@x'' \<notin> fst ` set (contacts bob_state) \<and>
   two_bobs_state = snd (roster_add c_locale ''b@x'' (Some ''Bob'') [] None False bob_state) \<and>
   name_ac bob_state = [''Bob''] \<and>
   name_ac (roster_remove c_locale ''Bob'' ''b@x'' two_bobs_state) = []"
  by code_simp

subsection \<open>The name-registration rule\<close>

text \<open>
  C3, as amended. The rule of \<open>replace_name\<close>: with a previous name, that name leaves
  the name completion and the name index, and the new identifier (the name if
  present, else the barejid) is registered, pointing at the barejid; with no previous
  name and a new one, the barejid fallback leaves both and the new name is
  registered; with neither, nothing changes. The rule keeps the name index and the
  name completion in sync, \<open>roster_add\<close> registers the identifier of the contact it
  creates, and after any sequence of operations from \<open>roster_init\<close> the keys of the name
  index are the strings of the name completion. When the callers keep identifiers
  unique (\<open>run_disciplined\<close>: no add goes ahead for a barejid that is already a key of
  the table, update is given the barejid lower-cased, no contact is given an
  identifier that another contact holds, a contact is removed under its own
  identifier), every contact present carries the barejid it is stored under and has
  exactly one entry in the name index: the entry maps its display name (if set) or its
  barejid (fallback) to that barejid, no other key of the name index maps to that
  barejid, the entries of the name index that point at that barejid are that one
  entry, no other contact has the same identifier, and every entry of the name index
  is the entry of a contact present.
\<close>

theorem name_registration_rule:
  "(let s' = replace_name (Some cur) new b s;
        ident = (case new of Some n \<Rightarrow> n | None \<Rightarrow> b)
    in ident \<in> set (name_ac s') \<and> map_of (name_to_barejid s') ident = Some b \<and>
       (cur \<noteq> ident \<longrightarrow> cur \<notin> set (name_ac s') \<and> map_of (name_to_barejid s') cur = None)) \<and>
   (let s' = replace_name None (Some n) b s
    in n \<in> set (name_ac s') \<and> map_of (name_to_barejid s') n = Some b \<and>
       (b \<noteq> n \<longrightarrow> b \<notin> set (name_ac s') \<and> map_of (name_to_barejid s') b = None)) \<and>
   replace_name None None b s = s \<and>
   (names_in_sync s \<longrightarrow> names_in_sync (replace_name prev new b s)) \<and>
   (roster_get_contact E sa b = None \<longrightarrow>
      map_of (name_to_barejid (snd (roster_add E b new gs sub po sa)))
        (case new of Some n \<Rightarrow> n | None \<Rightarrow> b) = Some b) \<and>
   (run E xs roster_init = Some t \<longrightarrow> fst ` set (name_to_barejid t) = set (name_ac t)) \<and>
   (run_disciplined E ys roster_init \<and> run E ys roster_init = Some u \<and>
    map_of (contacts u) k = Some c \<longrightarrow>
      p_contact_barejid c = k \<and> map_of (name_to_barejid u) (contact_ident c) = Some k \<and>
      (\<forall>x. map_of (name_to_barejid u) x = Some k \<longrightarrow> x = contact_ident c) \<and>
      filter (\<lambda>(x, j). j = k) (name_to_barejid u) = [(contact_ident c, k)] \<and>
      (\<forall>k' c'. map_of (contacts u) k' = Some c' \<and> contact_ident c' = contact_ident c
         \<longrightarrow> k' = k)) \<and>
   (run_disciplined E ys roster_init \<and> run E ys roster_init = Some u \<and>
    map_of (name_to_barejid u) x = Some j \<longrightarrow>
      (\<exists>d. map_of (contacts u) j = Some d \<and> contact_ident d = x))"
proof (intro conjI impI allI)
  show "let s' = replace_name (Some cur) new b s;
            ident = (case new of Some n \<Rightarrow> n | None \<Rightarrow> b)
        in ident \<in> set (name_ac s') \<and> map_of (name_to_barejid s') ident = Some b \<and>
           (cur \<noteq> ident \<longrightarrow> cur \<notin> set (name_ac s') \<and> map_of (name_to_barejid s') cur = None)"
    by (rule rule_previous_name)
  show "let s' = replace_name None (Some n) b s
        in n \<in> set (name_ac s') \<and> map_of (name_to_barejid s') n = Some b \<and>
           (b \<noteq> n \<longrightarrow> b \<notin> set (name_ac s') \<and> map_of (name_to_barejid s') b = None)"
    by (rule rule_fallback)
  show "replace_name None None b s = s"
    by (rule rule_nothing)
next
  assume "names_in_sync s"
  then show "names_in_sync (replace_name prev new b s)"
    by (rule sync_replace_name)
next
  assume "roster_get_contact E sa b = None"
  then show "map_of (name_to_barejid (snd (roster_add E b new gs sub po sa)))
        (case new of Some n \<Rightarrow> n | None \<Rightarrow> b) = Some b"
    by (rule add_registers)
next
  assume "run E xs roster_init = Some t"
  then have "names_in_sync t" by (rule sync_reachable)
  then show "fst ` set (name_to_barejid t) = set (name_ac t)"
    by (simp add: names_in_sync_def)
next
  assume a: "run_disciplined E ys roster_init \<and> run E ys roster_init = Some u \<and>
    map_of (contacts u) k = Some c"
  then have inv: "names_resolve u"
    using resolve_run[OF resolve_init] by blast
  from a have dist: "names_distinct u"
    using names_distinct_reachable by blast
  from a have at: "map_of (contacts u) k = Some c" by simp
  show "p_contact_barejid c = k" by (rule resolve_barejid[OF inv at])
  show "map_of (name_to_barejid u) (contact_ident c) = Some k" by (rule resolve_entry[OF inv at])
  show "filter (\<lambda>(x, j). j = k) (name_to_barejid u) = [(contact_ident c, k)]"
    by (rule resolve_one_entry[OF inv dist at])
  {
    fix x
    assume "map_of (name_to_barejid u) x = Some k"
    with inv at show "x = contact_ident c" by (rule resolve_only)
  }
  fix k' c'
  assume "map_of (contacts u) k' = Some c' \<and> contact_ident c' = contact_ident c"
  then show "k' = k"
    using resolve_inj[OF inv _ at] by blast
next
  assume a: "run_disciplined E ys roster_init \<and> run E ys roster_init = Some u \<and>
    map_of (name_to_barejid u) x = Some j"
  then have inv: "names_resolve u"
    using resolve_run[OF resolve_init] by blast
  from a have "map_of (name_to_barejid u) x = Some j" by simp
  with inv show "\<exists>d. map_of (contacts u) j = Some d \<and> contact_ident d = x"
    by (rule resolve_owner)
qed

theorem name_registration_rule_witness:
  "(''Bob'' \<noteq> ''a@x'' \<and> ''a@x'' \<noteq> ''Bob2'' \<and> names_in_sync bob_state \<and>
    roster_get_contact c_locale roster_init ''a@x'' = None \<and>
    run c_locale [Add ''a@x'' (Some ''Bob'') [] None False] roster_init = Some bob_state \<and>
    run_disciplined c_locale registration_ops roster_init \<and>
    run c_locale registration_ops roster_init = Some registration_state \<and>
    map_of (contacts registration_state) ''a@b'' =
      Some (p_contact_new ''a@b'' (Some ''Bob2'') [] None None False) \<and>
    map_of (name_to_barejid registration_state) ''Carl'' = Some ''c@d'') \<and>
   (''a@x'' \<in> set (name_ac (replace_name (Some ''Bob'') None ''a@x'' bob_state)) \<and>
    ''Bob'' \<notin> set (name_ac (replace_name (Some ''Bob'') None ''a@x'' bob_state)) \<and>
    map_of (name_to_barejid (replace_name None (Some ''Bob2'') ''a@x'' bob_state)) ''Bob2''
      = Some ''a@x'' \<and>
    names_in_sync (replace_name (Some ''Bob'') None ''a@x'' bob_state) \<and>
    fst ` set (name_to_barejid bob_state) = set (name_ac bob_state) \<and>
    map_of (name_to_barejid registration_state)
      (contact_ident (p_contact_new ''a@b'' (Some ''Bob2'') [] None None False)) = Some ''a@b'' \<and>
    filter (\<lambda>(x, j). j = ''a@b'') (name_to_barejid registration_state)
      = [(contact_ident (p_contact_new ''a@b'' (Some ''Bob2'') [] None None False), ''a@b'')] \<and>
    (\<exists>d. map_of (contacts registration_state) ''c@d'' = Some d \<and> contact_ident d = ''Carl'')) \<and>
   map fst (contacts registration_state) = [''a@b'', ''c@d''] \<and>
   name_to_barejid registration_state = [(''Bob2'', ''a@b''), (''Carl'', ''c@d'')]"
proof -
  have hyps: "''Bob'' \<noteq> ''a@x'' \<and> ''a@x'' \<noteq> ''Bob2'' \<and> names_in_sync bob_state \<and>
    roster_get_contact c_locale roster_init ''a@x'' = None \<and>
    run c_locale [Add ''a@x'' (Some ''Bob'') [] None False] roster_init = Some bob_state \<and>
    run_disciplined c_locale registration_ops roster_init \<and>
    run c_locale registration_ops roster_init = Some registration_state \<and>
    map_of (contacts registration_state) ''a@b'' =
      Some (p_contact_new ''a@b'' (Some ''Bob2'') [] None None False) \<and>
    map_of (name_to_barejid registration_state) ''Carl'' = Some ''c@d''"
    by code_simp
  have vals: "map fst (contacts registration_state) = [''a@b'', ''c@d''] \<and>
    name_to_barejid registration_state = [(''Bob2'', ''a@b''), (''Carl'', ''c@d'')]"
    by code_simp
  from hyps name_registration_rule [where E = c_locale and s = bob_state and sa = roster_init
      and cur = "''Bob''" and new = None and b = "''a@x''" and n = "''Bob2''"
      and prev = "Some ''Bob''" and gs = "[]" and sub = None and po = False
      and xs = "[Add ''a@x'' (Some ''Bob'') [] None False]" and t = bob_state
      and ys = registration_ops and u = registration_state and k = "''a@b''"
      and c = "p_contact_new ''a@b'' (Some ''Bob2'') [] None None False"
      and x = "''Carl''" and j = "''c@d''"]
  have "''a@x'' \<in> set (name_ac (replace_name (Some ''Bob'') None ''a@x'' bob_state)) \<and>
    ''Bob'' \<notin> set (name_ac (replace_name (Some ''Bob'') None ''a@x'' bob_state)) \<and>
    map_of (name_to_barejid (replace_name None (Some ''Bob2'') ''a@x'' bob_state)) ''Bob2''
      = Some ''a@x'' \<and>
    names_in_sync (replace_name (Some ''Bob'') None ''a@x'' bob_state) \<and>
    fst ` set (name_to_barejid bob_state) = set (name_ac bob_state) \<and>
    map_of (name_to_barejid registration_state)
      (contact_ident (p_contact_new ''a@b'' (Some ''Bob2'') [] None None False)) = Some ''a@b'' \<and>
    filter (\<lambda>(x, j). j = ''a@b'') (name_to_barejid registration_state)
      = [(contact_ident (p_contact_new ''a@b'' (Some ''Bob2'') [] None None False), ''a@b'')] \<and>
    (\<exists>d. map_of (contacts registration_state) ''c@d'' = Some d \<and> contact_ident d = ''Carl'')"
    by (simp add: Let_def)
  with hyps vals show ?thesis by blast
qed

text \<open>
  C3 as stated fails in its consequence: after adding \<open>a@x\<close> and \<open>b@x\<close>, both named
  \<open>Bob\<close>, the contact \<open>a@x\<close> is present with display name \<open>Bob\<close>, yet the only entry of
  the name index maps \<open>Bob\<close> to \<open>b@x\<close>.
\<close>

theorem name_index_shared_counterexample:
  "run c_locale [Add ''a@x'' (Some ''Bob'') [] None False,
                 Add ''b@x'' (Some ''Bob'') [] None False] roster_init = Some two_bobs_state \<and>
   map_option p_contact_name (roster_get_contact c_locale two_bobs_state ''a@x'')
     = Some (Some ''Bob'') \<and>
   map_option p_contact_barejid (roster_get_contact c_locale two_bobs_state ''a@x'')
     = Some ''a@x'' \<and>
   name_to_barejid two_bobs_state = [(''Bob'', ''b@x'')] \<and>
   roster_barejid_from_name two_bobs_state (Some ''Bob'') = Some ''b@x''"
  by code_simp

subsection \<open>Adding a contact that is already there\<close>

text \<open>
  C4. The claim has \<open>roster_add\<close> return false and change nothing when the barejid is
  already present, so that a second \<open>roster_add\<close> of the same barejid is refused. The
  presence check of \<open>roster_add\<close> looks the lower-cased barejid up, and misses the key
  that the first call stored as passed: on the empty roster, the second \<open>roster_add\<close> of
  \<open>A@x\<close> returns true and registers the new name.
\<close>

theorem add_twice_mixed_case:
  "mixed_case_state = snd (roster_add c_locale ''A@x'' (Some ''Bob'') [] None False roster_init) \<and>
   fst (roster_add c_locale ''A@x'' (Some ''Bob'') [] None False roster_init) \<and>
   fst (roster_add c_locale ''A@x'' (Some ''Rob'') [] None False mixed_case_state) \<and>
   name_ac mixed_case_state = [''Bob''] \<and>
   name_ac (snd (roster_add c_locale ''A@x'' (Some ''Rob'') [] None False mixed_case_state))
     = [''Bob'', ''Rob''] \<and>
   map_option p_contact_name
     (map_of (contacts (snd (roster_add c_locale ''A@x'' (Some ''Rob'') [] None False
        mixed_case_state))) ''A@x'') = Some (Some ''Rob'')"
  by code_simp

text \<open>
  What the code does give: if \<open>roster_get_contact\<close> finds the barejid, \<open>roster_add\<close>
  returns false and the state is unchanged; and for a barejid that is already
  lower-case, a second \<open>roster_add\<close> (with any arguments) returns false and leaves the
  whole index as the first call left it.
\<close>

lemma add_existing_fails:
  "(roster_get_contact E s b \<noteq> None \<longrightarrow> roster_add E b n gs sub po s = (False, s)) \<and>
   (g_utf8_strdown E b = b \<longrightarrow>
      roster_add E b n' gs' sub' po' (snd (roster_add E b n gs sub po sa)) =
        (False, snd (roster_add E b n gs sub po sa)))"
proof (intro conjI impI)
  assume "roster_get_contact E s b \<noteq> None"
  then obtain c where "roster_get_contact E s b = Some c" by auto
  then show "roster_add E b n gs sub po s = (False, s)"
    by (rule add_present)
next
  assume "g_utf8_strdown E b = b"
  then show "roster_add E b n' gs' sub' po' (snd (roster_add E b n gs sub po sa)) =
        (False, snd (roster_add E b n gs sub po sa))"
    by (rule add_twice)
qed

lemma add_existing_fails_example:
  "(roster_get_contact c_locale amy_state ''Amy@x'' \<noteq> None \<and>
    g_utf8_strdown c_locale ''amy@x'' = ''amy@x'' \<and>
    amy_state = snd (roster_add c_locale ''amy@x'' (Some ''Amy'') [''friends''] (Some ''both'')
                       False roster_init)) \<and>
   roster_add c_locale ''Amy@x'' (Some ''Amy2'') [] None True amy_state = (False, amy_state) \<and>
   roster_add c_locale ''amy@x'' (Some ''Amy2'') [] None True amy_state = (False, amy_state)"
proof -
  have hyps: "roster_get_contact c_locale amy_state ''Amy@x'' \<noteq> None \<and>
    g_utf8_strdown c_locale ''amy@x'' = ''amy@x'' \<and>
    amy_state = snd (roster_add c_locale ''amy@x'' (Some ''Amy'') [''friends''] (Some ''both'')
                       False roster_init)"
    by code_simp
  from hyps
    add_existing_fails [where E = c_locale and s = amy_state and b = "''Amy@x''"
      and n = "Some ''Amy2''" and gs = "[]" and sub = None and po = True]
    add_existing_fails [where E = c_locale and sa = roster_init and b = "''amy@x''"
      and n = "Some ''Amy''" and gs = "[''friends'']" and sub = "Some ''both''" and po = False
      and n' = "Some ''Amy2''" and gs' = "[]" and sub' = None and po' = True]
  show ?thesis by metis
qed

subsection \<open>Presence updates\<close>

text \<open>
  C5. For every state of the index and every barejid whose lower-cased form is not a
  key of the contacts table, \<open>roster_update_presence\<close> returns false and hands back the
  state it was given: contacts, the four completion indexes and the name index are
  all unchanged.
\<close>

theorem update_presence_unknown:
  "g_utf8_strdown E barejid \<notin> fst ` set (contacts s) \<Longrightarrow>
   roster_update_presence E barejid resource last_activity s = (False, s)"
proof -
  assume "g_utf8_strdown E barejid \<notin> fst ` set (contacts s)"
  then have "roster_get_contact E s barejid = None"
    by (simp add: roster_get_contact_def g_hash_table_lookup_def map_of_eq_None_iff)
  then show ?thesis
    by (simp add: roster_update_presence_def)
qed

theorem update_presence_unknown_witness:
  "g_utf8_strdown c_locale ''Bob@x'' \<notin> fst ` set (contacts amy_state) \<and>
   roster_update_presence c_locale ''Bob@x'' phone None amy_state = (False, amy_state)"
proof -
  have hyp: "g_utf8_strdown c_locale ''Bob@x'' \<notin> fst ` set (contacts amy_state)"
    by code_simp
  from hyp update_presence_unknown [of c_locale "''Bob@x''" amy_state phone None]
  show ?thesis by simp
qed

text \<open>
  C6. For a contact present in the index, \<open>roster_update_presence\<close> returns true; the
  contact's last activity afterwards is the stored value when \<open>datetimes_equal\<close> holds
  of the stored and the new value, and the new value otherwise, where two absent
  values are equal, an absent and a present one differ, and two present ones are
  compared by \<open>g_date_time_equal\<close>; the resource is among the contact's available
  resources under its name; and \<open>barejid/resource\<close> is in the full-jid completion,
  which is unchanged when the string was there already and grows by that one string
  otherwise.
\<close>

theorem update_presence_known:
  assumes "roster_get_contact E s barejid = Some contact"
  shows "let (result, s') = roster_update_presence E barejid resource last_activity s;
             fulljid = barejid @ ''/'' @ resource_name resource
         in result \<and>
            (\<exists>c'. roster_get_contact E s' barejid = Some c' \<and>
               p_contact_last_activity c' =
                 (if datetimes_equal (p_contact_last_activity contact) last_activity
                  then p_contact_last_activity contact else last_activity) \<and>
               map_of (available_resources c') (resource_name resource) = Some resource) \<and>
            fulljid \<in> set (fulljid_ac s') \<and>
            (fulljid \<in> set (fulljid_ac s) \<longrightarrow> fulljid_ac s' = fulljid_ac s) \<and>
            (fulljid \<notin> set (fulljid_ac s) \<longrightarrow> fulljid_ac s' = fulljid_ac s @ [fulljid]) \<and>
            datetimes_equal None None \<and>
            (\<forall>d. \<not> datetimes_equal None (Some d) \<and> \<not> datetimes_equal (Some d) None) \<and>
            (\<forall>d e. datetimes_equal (Some d) (Some e) = g_date_time_equal d e)"
  using assms
  by (auto simp: roster_update_presence_def Let_def roster_get_contact_def store_contact_def
      g_hash_table_lookup_def update_conv' p_contact_set_presence_def
      p_contact_set_last_activity_def autocomplete_add_def
      jid_create_from_bare_and_resource_def datetimes_equal_def)

theorem update_presence_known_witness:
  "roster_get_contact c_locale amy_state ''Amy@x'' =
     Some (p_contact_new ''amy@x'' (Some ''Amy'') [''friends''] (Some ''both'') None False) \<and>
   fst (roster_update_presence c_locale ''Amy@x'' phone
          (Some \<lparr>instant = 5, utc_offset = 0\<rparr>) amy_state) \<and>
   ''Amy@x'' @ ''/'' @ resource_name phone \<in>
     set (fulljid_ac (snd (roster_update_presence c_locale ''Amy@x'' phone
          (Some \<lparr>instant = 5, utc_offset = 0\<rparr>) amy_state))) \<and>
   fulljid_ac (snd (roster_update_presence c_locale ''Amy@x'' phone
          (Some \<lparr>instant = 5, utc_offset = 0\<rparr>) amy_state)) = [''Amy@x/phone''] \<and>
   map_option p_contact_last_activity
     (roster_get_contact c_locale
        (snd (roster_update_presence c_locale ''Amy@x'' phone
           (Some \<lparr>instant = 5, utc_offset = 0\<rparr>) amy_state)) ''Amy@x'')
     = Some (Some \<lparr>instant = 5, utc_offset = 0\<rparr>)"
proof -
  have hyp: "roster_get_contact c_locale amy_state ''Amy@x'' =
     Some (p_contact_new ''amy@x'' (Some ''Amy'') [''friends''] (Some ''both'') None False)"
    by code_simp
  have vals: "fulljid_ac (snd (roster_update_presence c_locale ''Amy@x'' phone
          (Some \<lparr>instant = 5, utc_offset = 0\<rparr>) amy_state)) = [''Amy@x/phone''] \<and>
   map_option p_contact_last_activity
     (roster_get_contact c_locale
        (snd (roster_update_presence c_locale ''Amy@x'' phone
           (Some \<lparr>instant = 5, utc_offset = 0\<rparr>) amy_state)) ''Amy@x'')
     = Some (Some \<lparr>instant = 5, utc_offset = 0\<rparr>)"
    by code_simp
  from update_presence_known [OF hyp, where resource = phone
      and last_activity = "Some \<lparr>instant = 5, utc_offset = 0\<rparr>"]
  have "fst (roster_update_presence c_locale ''Amy@x'' phone
          (Some \<lparr>instant = 5, utc_offset = 0\<rparr>) amy_state) \<and>
   ''Amy@x'' @ ''/'' @ resource_name phone \<in>
     set (fulljid_ac (snd (roster_update_presence c_locale ''Amy@x'' phone
          (Some \<lparr>instant = 5, utc_offset = 0\<rparr>) amy_state)))"
    unfolding Let_def split_beta by blast
  with hyp vals show ?thesis by blast
qed

subsection \<open>A contact or a resource going offline\<close>




subsection \<open>List queries\<close>

text \<open>
  C8. Each of the five list queries returns a list, built afresh by sorted insertion,
  that holds exactly the contacts of the table the query selects (all of them; those
  with the given presence; those whose presence is not \<open>offline\<close>; those in no group;
  those in the given group), each as often as the table holds it, in the
  lexicographic order of their collation keys: of two contacts of the list, the
  earlier one has the same key as the later one or a key that is lexicographically
  smaller, byte by byte, the key of a contact being the collation key of its display
  name if it has one and of its barejid otherwise. This is the order of
  \<open>compare_contacts\<close>, which is \<open>strcmp\<close> on the two keys. In the C locale, the roster
  holding Zed (\<open>b@x\<close>) and Amy (\<open>a@x\<close>) lists Amy, then Zed.
\<close>

theorem list_queries_sorted:
  "(let key = (\<lambda>c. case p_contact_name c of Some n \<Rightarrow> g_utf8_collate_key E n
                     | None \<Rightarrow> g_utf8_collate_key E (p_contact_barejid c));
        ordered = sorted_wrt (\<lambda>a b. key a = key b \<or>
                    (key a, key b) \<in> lexord {(x, y). (of_char x :: nat) < of_char y})
    in ordered (roster_get_contacts E s) \<and>
       ordered (roster_get_contacts_by_presence E presence s) \<and>
       ordered (roster_get_contacts_online E s) \<and>
       ordered (roster_get_nogroup E s) \<and>
       ordered (roster_get_group E grp s)) \<and>
   mset (roster_get_contacts E s) = mset (map snd (contacts s)) \<and>
   mset (roster_get_contacts_by_presence E presence s) =
     mset (filter (\<lambda>c. presence = Some (p_contact_presence E c)) (map snd (contacts s))) \<and>
   mset (roster_get_contacts_online E s) =
     mset (filter (\<lambda>c. p_contact_presence E c \<noteq> ''offline'') (map snd (contacts s))) \<and>
   mset (roster_get_nogroup E s) =
     mset (filter (\<lambda>c. p_contact_groups c = []) (map snd (contacts s))) \<and>
   mset (roster_get_group E grp s) =
     mset (filter (\<lambda>c. grp \<in> set (p_contact_groups c)) (map snd (contacts s))) \<and>
   sorted_wrt (\<lambda>a b. compare_contacts E a b \<le> 0) (roster_get_contacts E s) \<and>
   sorted_wrt (\<lambda>a b. compare_contacts E a b \<le> 0) (roster_get_contacts_by_presence E presence s) \<and>
   sorted_wrt (\<lambda>a b. compare_contacts E a b \<le> 0) (roster_get_contacts_online E s) \<and>
   sorted_wrt (\<lambda>a b. compare_contacts E a b \<le> 0) (roster_get_nogroup E s) \<and>
   sorted_wrt (\<lambda>a b. compare_contacts E a b \<le> 0) (roster_get_group E grp s) \<and>
   compare_contacts E x y =
     strcmp (case p_contact_name x of Some n \<Rightarrow> g_utf8_collate_key E n
             | None \<Rightarrow> g_utf8_collate_key E (p_contact_barejid x))
            (case p_contact_name y of Some n \<Rightarrow> g_utf8_collate_key E n
             | None \<Rightarrow> g_utf8_collate_key E (p_contact_barejid y)) \<and>
   (strcmp k1 k2 < 0 \<longleftrightarrow> (k1, k2) \<in> lexord {(c, d). (of_char c :: nat) < of_char d}) \<and>
   (strcmp k1 k2 = 0 \<longleftrightarrow> k1 = k2) \<and>
   map p_contact_name (roster_get_contacts c_locale zed_amy_state) = [Some ''Amy'', Some ''Zed'']"
proof (intro conjI)
  show "let key = (\<lambda>c. case p_contact_name c of Some n \<Rightarrow> g_utf8_collate_key E n
                     | None \<Rightarrow> g_utf8_collate_key E (p_contact_barejid c));
        ordered = sorted_wrt (\<lambda>a b. key a = key b \<or>
                    (key a, key b) \<in> lexord {(x, y). (of_char x :: nat) < of_char y})
    in ordered (roster_get_contacts E s) \<and>
       ordered (roster_get_contacts_by_presence E presence s) \<and>
       ordered (roster_get_contacts_online E s) \<and>
       ordered (roster_get_nogroup E s) \<and>
       ordered (roster_get_group E grp s)"
    unfolding Let_def roster_get_contacts_def roster_get_contacts_by_presence_def
      roster_get_contacts_online_def roster_get_nogroup_def roster_get_group_def
    by (intro conjI collect_sorted_by_key)
  show "mset (roster_get_contacts E s) = mset (map snd (contacts s))"
    by (simp add: roster_get_contacts_def collect_sorted_mset)
  show "mset (roster_get_contacts_by_presence E presence s) =
     mset (filter (\<lambda>c. presence = Some (p_contact_presence E c)) (map snd (contacts s)))"
  proof -
    have "(g_strcmp0 (Some (p_contact_presence E c)) presence = 0) =
        (presence = Some (p_contact_presence E c))" for c
      by (auto simp: g_strcmp0_eq_0)
    then show ?thesis
      by (simp add: roster_get_contacts_by_presence_def collect_sorted_mset)
  qed
  show "mset (roster_get_contacts_online E s) =
     mset (filter (\<lambda>c. p_contact_presence E c \<noteq> ''offline'') (map snd (contacts s)))"
    by (simp add: roster_get_contacts_online_def collect_sorted_mset strcmp_eq_0)
  show "mset (roster_get_nogroup E s) =
     mset (filter (\<lambda>c. p_contact_groups c = []) (map snd (contacts s)))"
    by (simp add: roster_get_nogroup_def collect_sorted_mset)
  show "mset (roster_get_group E grp s) =
     mset (filter (\<lambda>c. grp \<in> set (p_contact_groups c)) (map snd (contacts s)))"
    by (simp add: roster_get_group_def collect_sorted_mset list_ex_strcmp)
  show "sorted_wrt (\<lambda>a b. compare_contacts E a b \<le> 0) (roster_get_contacts E s)"
    unfolding roster_get_contacts_def by (rule collect_sorted_sorted)
  show "sorted_wrt (\<lambda>a b. compare_contacts E a b \<le> 0) (roster_get_contacts_by_presence E presence s)"
    unfolding roster_get_contacts_by_presence_def by (rule collect_sorted_sorted)
  show "sorted_wrt (\<lambda>a b. compare_contacts E a b \<le> 0) (roster_get_contacts_online E s)"
    unfolding roster_get_contacts_online_def by (rule collect_sorted_sorted)
  show "sorted_wrt (\<lambda>a b. compare_contacts E a b \<le> 0) (roster_get_nogroup E s)"
    unfolding roster_get_nogroup_def by (rule collect_sorted_sorted)
  show "sorted_wrt (\<lambda>a b. compare_contacts E a b \<le> 0) (roster_get_group E grp s)"
    unfolding roster_get_group_def by (rule collect_sorted_sorted)
  show "compare_contacts E x y =
     strcmp (case p_contact_name x of Some n \<Rightarrow> g_utf8_collate_key E n
             | None \<Rightarrow> g_utf8_collate_key E (p_contact_barejid x))
            (case p_contact_name y of Some n \<Rightarrow> g_utf8_collate_key E n
             | None \<Rightarrow> g_utf8_collate_key E (p_contact_barejid y))"
    by (rule compare_contacts_keys)
  show "strcmp k1 k2 < 0 \<longleftrightarrow> (k1, k2) \<in> lexord {(c, d). (of_char c :: nat) < of_char d}"
    by (rule strcmp_lexord)
  show "strcmp k1 k2 = 0 \<longleftrightarrow> k1 = k2"
    by (rule strcmp_eq_0)
  show "map p_contact_name (roster_get_contacts c_locale zed_amy_state) = [Some ''Amy'', Some ''Zed'']"
    by code_simp
qed

theorem list_queries_sorted_witness:
  "run c_locale busy_ops roster_init = Some busy_state \<and>
   map fst (contacts busy_state) = [''b@x'', ''c@x'', ''a@x'', ''d@x'', ''e@x''] \<and>
   map contact_ident (roster_get_contacts c_locale busy_state)
     = [''Abe'', ''Amy'', ''Bea'', ''Zed'', ''c@x''] \<and>
   map contact_ident (roster_get_contacts_by_presence c_locale (Some ''away'') busy_state)
     = [''Bea'', ''Zed''] \<and>
   map contact_ident (roster_get_contacts_online c_locale busy_state)
     = [''Bea'', ''Zed'', ''c@x''] \<and>
   map contact_ident (roster_get_nogroup c_locale busy_state) = [''Abe'', ''Amy''] \<and>
   map contact_ident (roster_get_group c_locale ''work'' busy_state) = [''Bea'', ''c@x''] \<and>
   mset (roster_get_contacts_by_presence c_locale (Some ''away'') busy_state) =
     mset (filter (\<lambda>c. Some ''away'' = Some (p_contact_presence c_locale c))
            (map snd (contacts busy_state))) \<and>
   mset (roster_get_group c_locale ''work'' busy_state) =
     mset (filter (\<lambda>c. ''work'' \<in> set (p_contact_groups c)) (map snd (contacts busy_state))) \<and>
   sorted_wrt (\<lambda>a b.
       (case p_contact_name a of Some n \<Rightarrow> g_utf8_collate_key c_locale n
        | None \<Rightarrow> g_utf8_collate_key c_locale (p_contact_barejid a)) =
       (case p_contact_name b of Some n \<Rightarrow> g_utf8_collate_key c_locale n
        | None \<Rightarrow> g_utf8_collate_key c_locale (p_contact_barejid b)) \<or>
       ((case p_contact_name a of Some n \<Rightarrow> g_utf8_collate_key c_locale n
         | None \<Rightarrow> g_utf8_collate_key c_locale (p_contact_barejid a)),
        (case p_contact_name b of Some n \<Rightarrow> g_utf8_collate_key c_locale n
         | None \<Rightarrow> g_utf8_collate_key c_locale (p_contact_barejid b)))
         \<in> lexord {(x, y). (of_char x :: nat) < of_char y})
     (roster_get_contacts c_locale busy_state)"
proof -
  have vals: "run c_locale busy_ops roster_init = Some busy_state \<and>
   map fst (contacts busy_state) = [''b@x'', ''c@x'', ''a@x'', ''d@x'', ''e@x''] \<and>
   map contact_ident (roster_get_contacts c_locale busy_state)
     = [''Abe'', ''Amy'', ''Bea'', ''Zed'', ''c@x''] \<and>
   map contact_ident (roster_get_contacts_by_presence c_locale (Some ''away'') busy_state)
     = [''Bea'', ''Zed''] \<and>
   map contact_ident (roster_get_contacts_online c_locale busy_state)
     = [''Bea'', ''Zed'', ''c@x''] \<and>
   map contact_ident (roster_get_nogroup c_locale busy_state) = [''Abe'', ''Amy''] \<and>
   map contact_ident (roster_get_group c_locale ''work'' busy_state) = [''Bea'', ''c@x'']"
    by code_simp
  from list_queries_sorted [where E = c_locale and s = busy_state
      and presence = "Some ''away''" and grp = "''work''"]
  have "mset (roster_get_contacts_by_presence c_locale (Some ''away'') busy_state) =
     mset (filter (\<lambda>c. Some ''away'' = Some (p_contact_presence c_locale c))
            (map snd (contacts busy_state))) \<and>
   mset (roster_get_group c_locale ''work'' busy_state) =
     mset (filter (\<lambda>c. ''work'' \<in> set (p_contact_groups c)) (map snd (contacts busy_state))) \<and>
   sorted_wrt (\<lambda>a b.
       (case p_contact_name a of Some n \<Rightarrow> g_utf8_collate_key c_locale n
        | None \<Rightarrow> g_utf8_collate_key c_locale (p_contact_barejid a)) =
       (case p_contact_name b of Some n \<Rightarrow> g_utf8_collate_key c_locale n
        | None \<Rightarrow> g_utf8_collate_key c_locale (p_contact_barejid b)) \<or>
       ((case p_contact_name a of Some n \<Rightarrow> g_utf8_collate_key c_locale n
         | None \<Rightarrow> g_utf8_collate_key c_locale (p_contact_barejid a)),
        (case p_contact_name b of Some n \<Rightarrow> g_utf8_collate_key c_locale n
         | None \<Rightarrow> g_utf8_collate_key c_locale (p_contact_barejid b)))
         \<in> lexord {(x, y). (of_char x :: nat) < of_char y})
     (roster_get_contacts c_locale busy_state)"
    unfolding Let_def by blast
  with vals show ?thesis by blast
qed

subsection \<open>The group completion\<close>

text \<open>
  C9, as amended. For every operation other than \<open>Clear\<close> (add, update, change of
  name, remove, presence update, contact offline, reset of the search attempts), every
  group name in the group completion before the operation is in it afterwards, and so
  for every sequence of such operations; group names are not pruned when a contact is
  removed or its groups are replaced.
\<close>

theorem groups_completion_grows:
  "(x \<noteq> Clear \<and> apply_op E x s = Some s' \<longrightarrow> set (groups_ac s) \<subseteq> set (groups_ac s')) \<and>
   (Clear \<notin> set xs \<and> run E xs s = Some t \<longrightarrow> set (groups_ac s) \<subseteq> set (groups_ac t))"
  using groups_step groups_run by blast

theorem groups_completion_grows_witness:
  "(Remove ''Amy'' ''amy@x'' \<noteq> Clear \<and>
    apply_op c_locale (Remove ''Amy'' ''amy@x'') amy_state
      = Some (roster_remove c_locale ''Amy'' ''amy@x'' amy_state) \<and>
    Clear \<notin> set [Update ''amy@x'' (Some ''Amy'') [''work''] None False,
                  Remove ''Amy'' ''amy@x''] \<and>
    run c_locale [Update ''amy@x'' (Some ''Amy'') [''work''] None False,
                  Remove ''Amy'' ''amy@x''] amy_state = Some amy_removed_state) \<and>
   set (groups_ac amy_state) \<subseteq> set (groups_ac (roster_remove c_locale ''Amy'' ''amy@x'' amy_state)) \<and>
   set (groups_ac amy_state) \<subseteq> set (groups_ac amy_removed_state) \<and>
   contacts amy_removed_state = [] \<and>
   groups_ac amy_removed_state = [''friends'', ''work'']"
proof -
  have hyps: "Remove ''Amy'' ''amy@x'' \<noteq> Clear \<and>
    apply_op c_locale (Remove ''Amy'' ''amy@x'') amy_state
      = Some (roster_remove c_locale ''Amy'' ''amy@x'' amy_state) \<and>
    Clear \<notin> set [Update ''amy@x'' (Some ''Amy'') [''work''] None False,
                  Remove ''Amy'' ''amy@x''] \<and>
    run c_locale [Update ''amy@x'' (Some ''Amy'') [''work''] None False,
                  Remove ''Amy'' ''amy@x''] amy_state = Some amy_removed_state"
    by code_simp
  have vals: "contacts amy_removed_state = [] \<and>
    groups_ac amy_removed_state = [''friends'', ''work'']"
    by code_simp
  from hyps vals groups_completion_grows [where E = c_locale and x = "Remove ''Amy'' ''amy@x''"
      and s = amy_state and s' = "roster_remove c_locale ''Amy'' ''amy@x'' amy_state"
      and xs = "[Update ''amy@x'' (Some ''Amy'') [''work''] None False,
                 Remove ''Amy'' ''amy@x'']" and t = amy_removed_state]
  show ?thesis by blast
qed

text \<open>
  C9 as stated fails for one operation: \<open>roster_clear\<close> wipes the group completion
  together with the rest of the index.
\<close>

theorem clear_prunes_groups_counterexample:
  "''friends'' \<in> set (groups_ac amy_state) \<and>
   apply_op c_locale Clear amy_state = Some (roster_clear amy_state) \<and>
   ''friends'' \<notin> set (groups_ac (roster_clear amy_state))"
  by code_simp

subsection \<open>Contacts online\<close>

text \<open>
  C10. \<open>roster_get_contacts_online\<close> returns exactly the contacts of the table whose
  presence string differs from \<open>offline\<close>, each as often as the table holds it, in the
  order of \<open>roster_get_contacts\<close>: it is the list of \<open>roster_get_contacts\<close> with the offline
  contacts left out. Both lists are in the lexicographic order of the collation keys
  (of the display name if the contact has one, of the barejid otherwise): of two
  contacts of a list, the earlier one has the same key as the later one or a key
  that is lexicographically smaller, byte by byte; and \<open>roster_get_contacts\<close> lists
  every contact of the table. It is a function of the state that returns a list only,
  so it changes nothing.
\<close>

theorem contacts_online:
  "mset (roster_get_contacts_online E s) =
     mset (filter (\<lambda>c. p_contact_presence E c \<noteq> ''offline'') (map snd (contacts s))) \<and>
   set (roster_get_contacts_online E s) =
     {c \<in> snd ` set (contacts s). p_contact_presence E c \<noteq> ''offline''} \<and>
   roster_get_contacts_online E s =
     filter (\<lambda>c. p_contact_presence E c \<noteq> ''offline'') (roster_get_contacts E s) \<and>
   sorted_wrt (\<lambda>a b. compare_contacts E a b \<le> 0) (roster_get_contacts_online E s) \<and>
   sorted_wrt (\<lambda>a b. compare_contacts E a b \<le> 0) (roster_get_contacts E s) \<and>
   (let key = (\<lambda>c. case p_contact_name c of Some n \<Rightarrow> g_utf8_collate_key E n
                     | None \<Rightarrow> g_utf8_collate_key E (p_contact_barejid c));
        ordered = sorted_wrt (\<lambda>a b. key a = key b \<or>
                    (key a, key b) \<in> lexord {(x, y). (of_char x :: nat) < of_char y})
    in ordered (roster_get_contacts_online E s) \<and> ordered (roster_get_contacts E s)) \<and>
   mset (roster_get_contacts E s) = mset (map snd (contacts s))"
proof (intro conjI)
  show m: "mset (roster_get_contacts_online E s) =
     mset (filter (\<lambda>c. p_contact_presence E c \<noteq> ''offline'') (map snd (contacts s)))"
    by (simp add: roster_get_contacts_online_def collect_sorted_mset strcmp_eq_0)
  have "set (roster_get_contacts_online E s) =
     set (filter (\<lambda>c. p_contact_presence E c \<noteq> ''offline'') (map snd (contacts s)))"
    using m by (rule mset_eq_setD)
  then show "set (roster_get_contacts_online E s) =
     {c \<in> snd ` set (contacts s). p_contact_presence E c \<noteq> ''offline''}"
    by auto
  show "roster_get_contacts_online E s =
     filter (\<lambda>c. p_contact_presence E c \<noteq> ''offline'') (roster_get_contacts E s)"
    unfolding roster_get_contacts_online_def roster_get_contacts_def
    by (subst collect_sorted_filter) (simp add: strcmp_eq_0)
  show "sorted_wrt (\<lambda>a b. compare_contacts E a b \<le> 0) (roster_get_contacts_online E s)"
    unfolding roster_get_contacts_online_def by (rule collect_sorted_sorted)
  show "sorted_wrt (\<lambda>a b. compare_contacts E a b \<le> 0) (roster_get_contacts E s)"
    unfolding roster_get_contacts_def by (rule collect_sorted_sorted)
  show "let key = (\<lambda>c. case p_contact_name c of Some n \<Rightarrow> g_utf8_collate_key E n
                     | None \<Rightarrow> g_utf8_collate_key E (p_contact_barejid c));
        ordered = sorted_wrt (\<lambda>a b. key a = key b \<or>
                    (key a, key b) \<in> lexord {(x, y). (of_char x :: nat) < of_char y})
    in ordered (roster_get_contacts_online E s) \<and> ordered (roster_get_contacts E s)"
    unfolding Let_def roster_get_contacts_def roster_get_contacts_online_def
    by (intro conjI collect_sorted_by_key)
  show "mset (roster_get_contacts E s) = mset (map snd (contacts s))"
    by (simp add: roster_get_contacts_def collect_sorted_mset)
qed

theorem contacts_online_witness:
  "run c_locale busy_ops roster_init = Some busy_state \<and>
   map (\<lambda>(k, c). (k, p_contact_presence c_locale c)) (contacts busy_state) =
     [(''b@x'', ''away''), (''c@x'', ''dnd''), (''a@x'', ''offline''), (''d@x'', ''away''),
      (''e@x'', ''offline'')] \<and>
   map (\<lambda>c. (contact_ident c, p_contact_barejid c, p_contact_presence c_locale c))
       (roster_get_contacts_online c_locale busy_state) =
     [(''Bea'', ''d@x'', ''away''), (''Zed'', ''b@x'', ''away''), (''c@x'', ''c@x'', ''dnd'')] \<and>
   map contact_ident (roster_get_contacts c_locale busy_state)
     = [''Abe'', ''Amy'', ''Bea'', ''Zed'', ''c@x''] \<and>
   roster_get_contacts_online c_locale amy_state = [] \<and>
   roster_get_contacts_online c_locale busy_state =
     filter (\<lambda>c. p_contact_presence c_locale c \<noteq> ''offline'')
       (roster_get_contacts c_locale busy_state) \<and>
   sorted_wrt (\<lambda>a b.
       (case p_contact_name a of Some n \<Rightarrow> g_utf8_collate_key c_locale n
        | None \<Rightarrow> g_utf8_collate_key c_locale (p_contact_barejid a)) =
       (case p_contact_name b of Some n \<Rightarrow> g_utf8_collate_key c_locale n
        | None \<Rightarrow> g_utf8_collate_key c_locale (p_contact_barejid b)) \<or>
       ((case p_contact_name a of Some n \<Rightarrow> g_utf8_collate_key c_locale n
         | None \<Rightarrow> g_utf8_collate_key c_locale (p_contact_barejid a)),
        (case p_contact_name b of Some n \<Rightarrow> g_utf8_collate_key c_locale n
         | None \<Rightarrow> g_utf8_collate_key c_locale (p_contact_barejid b)))
         \<in> lexord {(x, y). (of_char x :: nat) < of_char y})
     (roster_get_contacts_online c_locale busy_state)"
proof -
  have vals: "run c_locale busy_ops roster_init = Some busy_state \<and>
   map (\<lambda>(k, c). (k, p_contact_presence c_locale c)) (contacts busy_state) =
     [(''b@x'', ''away''), (''c@x'', ''dnd''), (''a@x'', ''offline''), (''d@x'', ''away''),
      (''e@x'', ''offline'')] \<and>
   map (\<lambda>c. (contact_ident c, p_contact_barejid c, p_contact_presence c_locale c))
       (roster_get_contacts_online c_locale busy_state) =
     [(''Bea'', ''d@x'', ''away''), (''Zed'', ''b@x'', ''away''), (''c@x'', ''c@x'', ''dnd'')] \<and>
   map contact_ident (roster_get_contacts c_locale busy_state)
     = [''Abe'', ''Amy'', ''Bea'', ''Zed'', ''c@x''] \<and>
   roster_get_contacts_online c_locale amy_state = []"
    by code_simp
  from contacts_online [where E = c_locale and s = busy_state]
  have "roster_get_contacts_online c_locale busy_state =
     filter (\<lambda>c. p_contact_presence c_locale c \<noteq> ''offline'')
       (roster_get_contacts c_locale busy_state) \<and>
   sorted_wrt (\<lambda>a b.
       (case p_contact_name a of Some n \<Rightarrow> g_utf8_collate_key c_locale n
        | None \<Rightarrow> g_utf8_collate_key c_locale (p_contact_barejid a)) =
       (case p_contact_name b of Some n \<Rightarrow> g_utf8_collate_key c_locale n
        | None \<Rightarrow> g_utf8_collate_key c_locale (p_contact_barejid b)) \<or>
       ((case p_contact_name a of Some n \<Rightarrow> g_utf8_collate_key c_locale n
         | None \<Rightarrow> g_utf8_collate_key c_locale (p_contact_barejid a)),
        (case p_contact_name b of Some n \<Rightarrow> g_utf8_collate_key c_locale n
         | None \<Rightarrow> g_utf8_collate_key c_locale (p_contact_barejid b)))
         \<in> lexord {(x, y). (of_char x :: nat) < of_char y})
     (roster_get_contacts_online c_locale busy_state)"
    unfolding Let_def by blast
  with vals show ?thesis by blast
qed

end
